theory Spec2Isabelle
  imports Main "HOL-Library.Signed_Division" "HOL-Library.Multiset"
begin

section \<open>JavaScript values used by \<open>map.js\<close>\<close>

text \<open>
  A JavaScript number as far as \<open>map.js\<close> computes with it: an integer, or \<open>NaN\<close>
  (what \<open>getHours\<close> and \<open>getMinutes\<close> give on an invalid \<open>Date\<close>). Arithmetic
  propagates \<open>NaN\<close>.
\<close>

datatype jsnum = Num int | NaN

fun js_add :: "jsnum \<Rightarrow> jsnum \<Rightarrow> jsnum" where
  "js_add (Num a) (Num b) = Num (a + b)"
| "js_add _ _ = NaN"

fun js_mul :: "jsnum \<Rightarrow> jsnum \<Rightarrow> jsnum" where
  "js_mul (Num a) (Num b) = Num (a * b)"
| "js_mul _ _ = NaN"

text \<open>
  A \<open>Date\<close> object holds a time value or is invalid. The time value kept here is the
  local wall-clock time in milliseconds, which is what \<open>getHours\<close> and \<open>getMinutes\<close>
  read.
\<close>

datatype jsdate = TimeValue int | InvalidDate

fun getHours :: "jsdate \<Rightarrow> jsnum" where
  "getHours (TimeValue t) = Num ((t div 3600000) mod 24)"
| "getHours InvalidDate = NaN"

fun getMinutes :: "jsdate \<Rightarrow> jsnum" where
  "getMinutes (TimeValue t) = Num ((t div 60000) mod 60)"
| "getMinutes InvalidDate = NaN"

text \<open>The only exception \<open>map.js\<close> can raise in the modelled code.\<close>

datatype js_error = TypeError

text \<open>
  \<open>Array.prototype.slice(start, end)\<close>: a negative index counts from the end, every
  index is clamped to the array, a missing \<open>end\<close> is the length, and an empty range
  gives the empty array.
\<close>

definition clamp_index :: "nat \<Rightarrow> int \<Rightarrow> nat" where
  "clamp_index len i = (if i < 0 then nat (max (int len + i) 0) else min (nat i) len)"

definition js_slice :: "'a list \<Rightarrow> int \<Rightarrow> int option \<Rightarrow> 'a list" where
  "js_slice xs start end =
     (let k = clamp_index (length xs) start;
          final = (case end of None \<Rightarrow> length xs | Some e \<Rightarrow> clamp_index (length xs) e)
      in take (final - k) (drop k xs))"

section \<open>Helper functions of \<open>map.js\<close>\<close>

definition minutesSinceMidnight :: "jsdate \<Rightarrow> jsnum" where
  "minutesSinceMidnight date = js_add (js_mul (getHours date) (Num 60)) (getMinutes date)"

text \<open>
  \<open>filterByMinute\<close>, lines 25 to 36. The query minute is the value of the slider, an
  integer. The operator \<open>%\<close> of JavaScript truncates towards zero, which is \<open>smod\<close>;
  \<open>flat()\<close> on an array of arrays is \<open>concat\<close>.
\<close>

definition filterByMinute :: "'a list list \<Rightarrow> int \<Rightarrow> 'a list" where
  "filterByMinute tripsByMinute minute =
     (if minute = - 1 then concat tripsByMinute
      else
        let minMinute = (minute - 60 + 1440) smod 1440;
            maxMinute = (minute + 60) smod 1440
        in if minMinute > maxMinute
           then concat (js_slice tripsByMinute minMinute None @ js_slice tripsByMinute 0 (Some maxMinute))
           else concat (js_slice tripsByMinute minMinute (Some maxMinute)))"

section \<open>The trip index\<close>

text \<open>
  A row of the trips file, as \<open>d3.csv\<close> hands it to the row function: an object whose
  properties are strings. The row function replaces \<open>started_at\<close> and \<open>ended_at\<close> by
  \<open>Date\<close> objects, so the record is parametric in the type of the two timestamps:
  \<open>string\<close> before, \<open>jsdate\<close> after. Every other column of the file is in the
  extension of the record.
\<close>

record 'd trip =
  start_station_id :: string
  end_station_id :: string
  started_at :: 'd
  ended_at :: 'd

text \<open>
  The module state: \<open>departuresByMinute\<close> and \<open>arrivalsByMinute\<close>, lines 21 and 22,
  each created as 1440 empty arrays.
\<close>

record 'a index_state =
  departuresByMinute :: "'a list list"
  arrivalsByMinute :: "'a list list"

definition init_state :: "'a index_state" where
  "init_state = \<lparr>departuresByMinute = replicate 1440 [], arrivalsByMinute = replicate 1440 []\<rparr>"

text \<open>
  \<open>buckets[k].push(d)\<close>: reading an index that is not an element of the array (out of
  range, negative or \<open>NaN\<close>) gives \<open>undefined\<close>, and calling \<open>push\<close> on it throws a
  \<open>TypeError\<close>.
\<close>

definition bucket_push :: "'a list list \<Rightarrow> jsnum \<Rightarrow> 'a \<Rightarrow> js_error + 'a list list" where
  "bucket_push buckets k d =
     (case k of
        NaN \<Rightarrow> Inl TypeError
      | Num i \<Rightarrow>
          if 0 \<le> i \<and> i < int (length buckets)
          then Inr (buckets[nat i := buckets ! nat i @ [d]])
          else Inl TypeError)"

text \<open>
  The body of the \<open>try\<close> block, lines 115 to 118: both minutes are computed, then the
  trip is pushed on the departure bucket, then on the arrival bucket. The state that is
  returned with an exception is the state at the moment of the throw.
\<close>

definition populate ::
  "(jsdate, 'm) trip_scheme index_state \<Rightarrow> (jsdate, 'm) trip_scheme
     \<Rightarrow> (js_error + unit) \<times> (jsdate, 'm) trip_scheme index_state" where
  "populate st d =
     (let sMin = minutesSinceMidnight (started_at d);
          eMin = minutesSinceMidnight (ended_at d)
      in case bucket_push (departuresByMinute st) sMin d of
           Inl err \<Rightarrow> (Inl err, st)
         | Inr deps \<Rightarrow>
             (let st1 = st\<lparr>departuresByMinute := deps\<rparr>
              in case bucket_push (arrivalsByMinute st1) eMin d of
                   Inl err \<Rightarrow> (Inl err, st1)
                 | Inr arrs \<Rightarrow> (Inr (), st1\<lparr>arrivalsByMinute := arrs\<rparr>)))"

text \<open>
  The row function given to \<open>d3.csv\<close>, lines 109 to 124. The \<open>Date\<close> constructor is a
  parameter, \<open>newDate\<close>. The \<open>catch\<close> clause is empty: whatever \<open>populate\<close> threw is
  dropped and the row is returned.
\<close>

definition parse_dates :: "(string \<Rightarrow> jsdate) \<Rightarrow> (string, 'm) trip_scheme \<Rightarrow> (jsdate, 'm) trip_scheme" where
  "parse_dates newDate d =
     \<lparr>start_station_id = start_station_id d, end_station_id = end_station_id d,
      started_at = newDate (started_at d), ended_at = newDate (ended_at d), \<dots> = trip.more d\<rparr>"

definition trips_row ::
  "(string \<Rightarrow> jsdate) \<Rightarrow> (jsdate, 'm) trip_scheme index_state \<Rightarrow> (string, 'm) trip_scheme
     \<Rightarrow> (jsdate, 'm) trip_scheme index_state \<times> (jsdate, 'm) trip_scheme" where
  "trips_row newDate st row =
     (let d = parse_dates newDate row
      in case populate st d of
           (Inl err, st') \<Rightarrow> (st', d)
         | (Inr u, st') \<Rightarrow> (st', d))"

text \<open>\<open>d3.csv\<close> applies the row function to the rows in file order and collects what it returns.\<close>

fun csv_rows ::
  "(string \<Rightarrow> jsdate) \<Rightarrow> (jsdate, 'm) trip_scheme index_state \<Rightarrow> (string, 'm) trip_scheme list
     \<Rightarrow> (jsdate, 'm) trip_scheme index_state \<times> (jsdate, 'm) trip_scheme list" where
  "csv_rows newDate st [] = (st, [])"
| "csv_rows newDate st (row # rows) =
     (case trips_row newDate st row of
        (st1, d) \<Rightarrow> (case csv_rows newDate st1 rows of (st2, ds) \<Rightarrow> (st2, d # ds)))"

definition load_trips ::
  "(string \<Rightarrow> jsdate) \<Rightarrow> (string, 'm) trip_scheme list \<Rightarrow> (jsdate, 'm) trip_scheme index_state" where
  "load_trips newDate rows = fst (csv_rows newDate init_state rows)"

section \<open>Station traffic\<close>

text \<open>
  A station of the roster. \<open>short_name\<close> is the join key; the three derived
  properties are absent (\<open>None\<close>) on the objects of the stations file and are written
  by \<open>computeStationTraffic\<close>. The coordinates and every other property of the object
  are in the extension of the record.
\<close>

record station =
  short_name :: string
  departures :: "jsnum option"
  arrivals :: "jsnum option"
  totalTraffic :: "jsnum option"

text \<open>
  \<open>d3.rollup(values, reduce, key)\<close>: the values are grouped by key, each group in
  encounter order, and \<open>reduce\<close> is applied to every group. \<open>get\<close> on the resulting map
  is application; a missing key gives \<open>undefined\<close>, here \<open>None\<close>.
\<close>

definition d3_group :: "'a list \<Rightarrow> ('a \<Rightarrow> 'k) \<Rightarrow> ('k \<rightharpoonup> 'a list)" where
  "d3_group values key =
     foldl (\<lambda>groups v.
              groups(key v \<mapsto> (case groups (key v) of None \<Rightarrow> [v] | Some g \<Rightarrow> g @ [v])))
           Map.empty values"

definition d3_rollup :: "'a list \<Rightarrow> ('a list \<Rightarrow> 'b) \<Rightarrow> ('a \<Rightarrow> 'k) \<Rightarrow> ('k \<rightharpoonup> 'b)" where
  "d3_rollup values reduce key = (\<lambda>k. map_option reduce (d3_group values key k))"

text \<open>The property \<open>length\<close> of an array, as a number.\<close>

definition js_length :: "'a list \<Rightarrow> jsnum" where
  "js_length v = Num (int (length v))"

text \<open>The operator \<open>??\<close>: the right operand when the left one is \<open>undefined\<close>.\<close>

definition nullish :: "'a option \<Rightarrow> 'a \<Rightarrow> 'a" where
  "nullish v dflt = (case v of None \<Rightarrow> dflt | Some x \<Rightarrow> x)"

text \<open>
  A property read used as an operand of \<open>+\<close>: an absent property is \<open>undefined\<close>, which
  \<open>+\<close> converts to \<open>NaN\<close>.
\<close>

definition to_number :: "jsnum option \<Rightarrow> jsnum" where
  "to_number v = (case v of None \<Rightarrow> NaN | Some n \<Rightarrow> n)"

text \<open>
  \<open>computeStationTraffic\<close>, lines 40 to 54, with the module state as first argument;
  a call without \<open>timeFilter\<close> is a call with \<open>-1\<close>. The two rollups are computed
  before the roster is walked; every station object is then written in place
  (\<open>write_traffic\<close> is the function given to \<open>stations.map\<close>) and the array of the
  same objects is returned. \<open>station.departures + station.arrivals\<close> reads the two
  properties just written.
\<close>

definition write_traffic ::
  "(string \<rightharpoonup> jsnum) \<Rightarrow> (string \<rightharpoonup> jsnum) \<Rightarrow> 'm station_scheme \<Rightarrow> 'm station_scheme" where
  "write_traffic departuresMap arrivalsMap station =
     (let id = short_name station;
          station1 = station\<lparr>departures := Some (nullish (departuresMap id) (Num 0))\<rparr>;
          station2 = station1\<lparr>arrivals := Some (nullish (arrivalsMap id) (Num 0))\<rparr>
      in station2\<lparr>totalTraffic :=
           Some (js_add (to_number (departures station2)) (to_number (arrivals station2)))\<rparr>)"

definition computeStationTraffic ::
  "('d, 't) trip_scheme index_state \<Rightarrow> 'm station_scheme list \<Rightarrow> int \<Rightarrow> 'm station_scheme list" where
  "computeStationTraffic st stations timeFilter =
     (let depTrips = filterByMinute (departuresByMinute st) timeFilter;
          arrTrips = filterByMinute (arrivalsByMinute st) timeFilter;
          departuresMap = d3_rollup depTrips js_length start_station_id;
          arrivalsMap = d3_rollup arrTrips js_length end_station_id
      in map (write_traffic departuresMap arrivalsMap) stations)"

section \<open>Station traffic on an object store\<close>

text \<open>
  \<open>computeStationTraffic\<close> once more, with the objects in a store, to state what it
  writes and what it leaves alone. An object is a bag of properties, a missing property
  reads as \<open>undefined\<close>, and arrays hold references. Trips and stations are objects of
  the same store, so nothing in the model keeps a write to a station from reaching a
  trip: that is a property to prove.
\<close>

datatype jsval = Undefined | Str string | Number jsnum | DateObj jsdate

type_synonym ref = nat

type_synonym heap = "ref \<Rightarrow> string \<rightharpoonup> jsval"

definition get_prop :: "heap \<Rightarrow> ref \<Rightarrow> string \<Rightarrow> jsval" where
  "get_prop h r p = (case h r p of None \<Rightarrow> Undefined | Some v \<Rightarrow> v)"

definition set_prop :: "heap \<Rightarrow> ref \<Rightarrow> string \<Rightarrow> jsval \<Rightarrow> heap" where
  "set_prop h r p v = h(r := (h r)(p \<mapsto> v))"

text \<open>
  \<open>+\<close> on two numbers. \<open>computeStationTraffic\<close> applies it to two properties it has
  just set to numbers; on any other operands the model gives \<open>NaN\<close>.
\<close>

fun js_plus :: "jsval \<Rightarrow> jsval \<Rightarrow> jsval" where
  "js_plus (Number a) (Number b) = Number (js_add a b)"
| "js_plus _ _ = Number NaN"

text \<open>The function given to \<open>stations.map\<close>, lines 47 to 53, on the store.\<close>

definition write_traffic_h :: "(jsval \<rightharpoonup> jsnum) \<Rightarrow> (jsval \<rightharpoonup> jsnum) \<Rightarrow> heap \<Rightarrow> ref \<Rightarrow> heap" where
  "write_traffic_h departuresMap arrivalsMap h station =
     (let id = get_prop h station ''short_name'';
          h1 = set_prop h station ''departures'' (Number (nullish (departuresMap id) (Num 0)));
          h2 = set_prop h1 station ''arrivals'' (Number (nullish (arrivalsMap id) (Num 0)))
      in set_prop h2 station ''totalTraffic''
           (js_plus (get_prop h2 station ''departures'') (get_prop h2 station ''arrivals'')))"

text \<open>
  Lines 40 to 54 on the store: the two rollups read the trips in the store as it is on
  entry, then the roster is walked from left to right, and the array returned holds the
  references of the roster.
\<close>

definition computeStationTraffic_h ::
  "ref list list \<Rightarrow> ref list list \<Rightarrow> heap \<Rightarrow> ref list \<Rightarrow> int \<Rightarrow> heap \<times> ref list" where
  "computeStationTraffic_h departuresRefs arrivalsRefs h stations timeFilter =
     (let depTrips = filterByMinute departuresRefs timeFilter;
          arrTrips = filterByMinute arrivalsRefs timeFilter;
          departuresMap = d3_rollup depTrips js_length (\<lambda>d. get_prop h d ''start_station_id'');
          arrivalsMap = d3_rollup arrTrips js_length (\<lambda>d. get_prop h d ''end_station_id'')
      in (foldl (write_traffic_h departuresMap arrivalsMap) h stations, stations))"

section \<open>Objects the statements are about\<close>

text \<open>
  An index whose bucket \<open>i\<close> holds the single element \<open>i\<close>: what \<open>filterByMinute\<close>
  returns on it is the list of the minutes it selects, in the order it selects them.
\<close>

definition minute_tags :: "nat list list" where
  "minute_tags = map (\<lambda>i. [i]) [0..<1440]"

text \<open>
  The half-open circular interval from 60 minutes before \<open>m\<close> to 60 minutes after it,
  as a list of minutes: \<open>m - 60\<close>, \<open>m - 59\<close>, and so on up to \<open>m + 59\<close>, each taken
  modulo 1440. This definition follows the wording of the specification, not the code.
\<close>

definition window_minutes :: "int \<Rightarrow> nat list" where
  "window_minutes m = map (\<lambda>k. nat ((m - 60 + int k) mod 1440)) [0..<120]"

text \<open>
  The minute of the day of a timestamp, \<open>hour * 60 + minute\<close>, when the timestamp is a
  valid date. This definition follows the wording of the specification; the code
  computes \<open>minutesSinceMidnight\<close>.
\<close>

definition minute_of :: "jsdate \<Rightarrow> nat option" where
  "minute_of date =
     (case date of
        InvalidDate \<Rightarrow> None
      | TimeValue t \<Rightarrow> Some (nat ((t div 3600000) mod 24 * 60 + (t div 60000) mod 60)))"

text \<open>A trip with valid minutes: both of its timestamps are valid dates.\<close>

definition valid_minutes :: "(jsdate, 'm) trip_scheme \<Rightarrow> bool" where
  "valid_minutes d = (minute_of (started_at d) \<noteq> None \<and> minute_of (ended_at d) \<noteq> None)"

text \<open>Both arrays of the module state have their 1440 buckets.\<close>

definition wf_state :: "'a index_state \<Rightarrow> bool" where
  "wf_state st = (length (departuresByMinute st) = 1440 \<and> length (arrivalsByMinute st) = 1440)"

text \<open>
  Sample inputs. \<open>sample_newDate\<close> is the \<open>Date\<close> constructor on the three timestamp
  strings the samples use: eight o'clock, twenty-five past eight, and the empty string,
  which is not a date. \<open>good_row\<close> is a trip from station A to station B with both
  timestamps; \<open>half_row\<close> is the same trip with an empty \<open>ended_at\<close> column.
\<close>

definition sample_newDate :: "string \<Rightarrow> jsdate" where
  "sample_newDate s =
     (if s = ''2024-03-01 08:00:00'' then TimeValue 28800000
      else if s = ''2024-03-01 08:25:00'' then TimeValue 30300000
      else InvalidDate)"

definition good_row :: "string trip" where
  "good_row = \<lparr>start_station_id = ''A'', end_station_id = ''B'',
                started_at = ''2024-03-01 08:00:00'', ended_at = ''2024-03-01 08:25:00''\<rparr>"

definition half_row :: "string trip" where
  "half_row = \<lparr>start_station_id = ''A'', end_station_id = ''B'',
                started_at = ''2024-03-01 08:00:00'', ended_at = []\<rparr>"

definition station_A :: station where
  "station_A = \<lparr>short_name = ''A'', departures = None, arrivals = None, totalTraffic = None\<rparr>"

definition station_B :: station where
  "station_B = \<lparr>short_name = ''B'', departures = None, arrivals = None, totalTraffic = None\<rparr>"

definition station_C :: station where
  "station_C = \<lparr>short_name = ''C'', departures = None, arrivals = None, totalTraffic = None\<rparr>"

text \<open>The three properties \<open>computeStationTraffic\<close> writes on a station.\<close>

definition derived :: "string set" where
  "derived = {''departures'', ''arrivals'', ''totalTraffic''}"

text \<open>
  The properties of the object \<open>r\<close> after the three writes, given the store \<open>h\<close> before
  them: the two counts of its \<open>short_name\<close>, their sum, and every other property as it
  was.
\<close>

definition written :: "(jsval \<rightharpoonup> jsnum) \<Rightarrow> (jsval \<rightharpoonup> jsnum) \<Rightarrow> heap \<Rightarrow> ref \<Rightarrow> string \<rightharpoonup> jsval" where
  "written dm am h r p =
     (if p = ''departures'' then Some (Number (nullish (dm (get_prop h r ''short_name'')) (Num 0)))
      else if p = ''arrivals'' then Some (Number (nullish (am (get_prop h r ''short_name'')) (Num 0)))
      else if p = ''totalTraffic''
        then Some (Number (js_add (nullish (dm (get_prop h r ''short_name'')) (Num 0))
                                  (nullish (am (get_prop h r ''short_name'')) (Num 0))))
      else h r p)"

text \<open>
  A store with a station at reference 0 and a trip at reference 1, from station A to
  station B.
\<close>

definition sample_heap :: heap where
  "sample_heap =
     (\<lambda>r. Map.empty)
       (0 := [''short_name'' \<mapsto> Str ''A'', ''name'' \<mapsto> Str ''Main St''],
        1 := [''start_station_id'' \<mapsto> Str ''A'', ''end_station_id'' \<mapsto> Str ''B''])"

text \<open>
  The records a store stands for, to compare the two models: the station and the trip
  read off an object. An identifier that is not a string reads as the empty string, a
  derived property that is not a number as absent.
\<close>

definition str_of :: "jsval \<Rightarrow> string" where
  "str_of v = (case v of Str s \<Rightarrow> s | _ \<Rightarrow> [])"

definition num_of :: "jsval option \<Rightarrow> jsnum option" where
  "num_of v = (case v of Some (Number n) \<Rightarrow> Some n | _ \<Rightarrow> None)"

definition station_of :: "heap \<Rightarrow> ref \<Rightarrow> station" where
  "station_of h r =
     \<lparr>short_name = str_of (get_prop h r ''short_name''),
      departures = num_of (h r ''departures''),
      arrivals = num_of (h r ''arrivals''),
      totalTraffic = num_of (h r ''totalTraffic'')\<rparr>"

definition trip_of :: "heap \<Rightarrow> ref \<Rightarrow> jsval trip" where
  "trip_of h r =
     \<lparr>start_station_id = str_of (get_prop h r ''start_station_id''),
      end_station_id = str_of (get_prop h r ''end_station_id''),
      started_at = get_prop h r ''started_at'',
      ended_at = get_prop h r ''ended_at''\<rparr>"

section \<open>The window selected by \<open>filterByMinute\<close>\<close>

lemma clamp_index_nat: "0 \<le> i \<Longrightarrow> i \<le> int n \<Longrightarrow> clamp_index n i = nat i"
  by (simp add: clamp_index_def)

lemma take_drop_nth_upt: "a \<le> b \<Longrightarrow> b \<le> length xs \<Longrightarrow> take (b - a) (drop a xs) = map (\<lambda>i. xs ! i) [a..<b]"
  by (simp add: list_eq_iff_nth_eq)

lemma js_slice_range:
  "0 \<le> a \<Longrightarrow> a \<le> b \<Longrightarrow> b \<le> int (length xs) \<Longrightarrow>
   js_slice xs a (Some b) = map (\<lambda>i. xs ! i) [nat a..<nat b]"
  by (simp add: js_slice_def clamp_index_nat take_drop_nth_upt)

lemma js_slice_from:
  "0 \<le> a \<Longrightarrow> a \<le> int (length xs) \<Longrightarrow> js_slice xs a None = map (\<lambda>i. xs ! i) [nat a..<length xs]"
  using take_drop_nth_upt[of "nat a" "length xs" xs] by (simp add: js_slice_def clamp_index_nat)

lemma smod_nonneg: "0 \<le> (a::int) \<Longrightarrow> 0 < b \<Longrightarrow> a smod b = a mod b"
  by (simp add: smod_int_alt_def sgn_if)

lemma filterByMinute_ranges:
  assumes len: "length idx = 1440" and m: "0 \<le> m" "m < 1440"
  shows "filterByMinute idx m =
     (if (m + 60) mod 1440 < (m - 60 + 1440) mod 1440
      then concat (map (\<lambda>i. idx ! i) ([nat ((m - 60 + 1440) mod 1440)..<1440] @ [0..<nat ((m + 60) mod 1440)]))
      else concat (map (\<lambda>i. idx ! i) [nat ((m - 60 + 1440) mod 1440)..<nat ((m + 60) mod 1440)]))"
proof -
  have ne: "m \<noteq> - 1" using m by simp
  have s1: "(1380 + m) smod 1440 = (1380 + m) mod 1440"
    using m by (intro smod_nonneg) simp_all
  have s2: "(m + 60) smod 1440 = (m + 60) mod 1440"
    using m by (intro smod_nonneg) simp_all
  have b1: "0 \<le> (m - 60 + 1440) mod 1440" "(m - 60 + 1440) mod 1440 \<le> int (length idx)"
    using len by simp_all
  have b2: "0 \<le> (m + 60) mod 1440" "(m + 60) mod 1440 \<le> int (length idx)"
    using len by simp_all
  show ?thesis
  proof (cases "(m + 60) mod 1440 < (m - 60 + 1440) mod 1440")
    case True
    have "js_slice idx ((m - 60 + 1440) mod 1440) None = map (\<lambda>i. idx ! i) [nat ((m - 60 + 1440) mod 1440)..<1440]"
      using js_slice_from[OF b1] len by simp
    moreover have "js_slice idx 0 (Some ((m + 60) mod 1440)) = map (\<lambda>i. idx ! i) [0..<nat ((m + 60) mod 1440)]"
      using js_slice_range[of 0 "(m + 60) mod 1440" idx] b2 by simp
    ultimately show ?thesis
      using True ne by (simp add: filterByMinute_def s1 s2 Let_def del: upt_Suc)
  next
    case False
    then have le: "(m - 60 + 1440) mod 1440 \<le> (m + 60) mod 1440" by simp
    have "js_slice idx ((m - 60 + 1440) mod 1440) (Some ((m + 60) mod 1440))
            = map (\<lambda>i. idx ! i) [nat ((m - 60 + 1440) mod 1440)..<nat ((m + 60) mod 1440)]"
      using js_slice_range[OF b1(1) le b2(2)] .
    then show ?thesis
      using False ne by (simp add: filterByMinute_def s1 s2 Let_def del: upt_Suc)
  qed
qed

lemma mod_1440_low: "0 \<le> (x::int) \<Longrightarrow> x < 1440 \<Longrightarrow> x mod 1440 = x"
  by simp

lemma mod_1440_high: "1440 \<le> (x::int) \<Longrightarrow> x < 2880 \<Longrightarrow> x mod 1440 = x - 1440"
  using mod_pos_pos_trivial[of "x - 1440" 1440] by (simp del: mod_pos_pos_trivial)

lemma window_minutes_nat:
  "window_minutes (int n) = map (\<lambda>k. (n + 1380 + k) mod 1440) [0..<120]"
proof -
  have "nat ((int n - 60 + int k) mod 1440) = (n + 1380 + k) mod 1440" for k
  proof -
    have "(int n - 60 + int k) mod 1440 = (int n - 60 + int k + 1440) mod 1440"
      by (simp only: mod_add_self2)
    also have "int n - 60 + int k + 1440 = int (n + 1380 + k)" by simp
    also have "int (n + 1380 + k) mod 1440 = int ((n + 1380 + k) mod 1440)"
      by (simp add: zmod_int)
    finally show ?thesis by (simp only: nat_int)
  qed
  then show ?thesis by (simp add: window_minutes_def)
qed

lemma nat_mod_1440_high: "1440 \<le> (x::nat) \<Longrightarrow> x < 2880 \<Longrightarrow> x mod 1440 = x - 1440"
  by (simp add: le_mod_geq)

lemma window_low:
  assumes "n < 60"
  shows "[n + 1380..<1440] @ [0..<n + 60] = map (\<lambda>k. (n + 1380 + k) mod 1440) [0..<120]"
  unfolding list_eq_iff_nth_eq
proof (intro conjI allI impI)
  show "length ([n + 1380..<1440] @ [0..<n + 60]) = length (map (\<lambda>k. (n + 1380 + k) mod 1440) [0..<120])"
    using assms by simp
next
  fix i assume "i < length ([n + 1380..<1440] @ [0..<n + 60])"
  then have i: "i < 120" using assms by simp
  show "([n + 1380..<1440] @ [0..<n + 60]) ! i = map (\<lambda>k. (n + 1380 + k) mod 1440) [0..<120] ! i"
  proof (cases "i < 60 - n")
    case True
    then show ?thesis using assms i by (simp add: nth_append)
  next
    case False
    then have "(n + 1380 + i) mod 1440 = n + 1380 + i - 1440"
      using assms i by (intro nat_mod_1440_high) simp_all
    then show ?thesis using False assms i by (simp add: nth_append)
  qed
qed

lemma window_mid:
  assumes "60 \<le> n" "n < 1380"
  shows "[n - 60..<n + 60] = map (\<lambda>k. (n + 1380 + k) mod 1440) [0..<120]"
  unfolding list_eq_iff_nth_eq
proof (intro conjI allI impI)
  show "length [n - 60..<n + 60] = length (map (\<lambda>k. (n + 1380 + k) mod 1440) [0..<120])"
    using assms by simp
next
  fix i assume "i < length [n - 60..<n + 60]"
  then have i: "i < 120" using assms by simp
  have "(n + 1380 + i) mod 1440 = n + 1380 + i - 1440"
    using assms i by (intro nat_mod_1440_high) simp_all
  then show "[n - 60..<n + 60] ! i = map (\<lambda>k. (n + 1380 + k) mod 1440) [0..<120] ! i"
    using assms i by simp
qed

lemma window_high:
  assumes "1380 \<le> n" "n < 1440"
  shows "[n - 60..<1440] @ [0..<n - 1380] = map (\<lambda>k. (n + 1380 + k) mod 1440) [0..<120]"
  unfolding list_eq_iff_nth_eq
proof (intro conjI allI impI)
  show "length ([n - 60..<1440] @ [0..<n - 1380]) = length (map (\<lambda>k. (n + 1380 + k) mod 1440) [0..<120])"
    using assms by simp
next
  fix i assume "i < length ([n - 60..<1440] @ [0..<n - 1380])"
  then have i: "i < 120" using assms by simp
  show "([n - 60..<1440] @ [0..<n - 1380]) ! i = map (\<lambda>k. (n + 1380 + k) mod 1440) [0..<120] ! i"
  proof (cases "i < 1500 - n")
    case True
    have "(n + 1380 + i) mod 1440 = n + 1380 + i - 1440"
      using True assms i by (intro nat_mod_1440_high) simp_all
    then show ?thesis using True assms i by (simp add: nth_append)
  next
    case False
    have "(n + 1380 + i) mod 1440 = (n + 1380 + i - 1440) mod 1440"
      using assms by (intro le_mod_geq) simp
    also have "\<dots> = n + 1380 + i - 1440 - 1440"
      using False assms i by (intro nat_mod_1440_high) simp_all
    finally show ?thesis using False assms i by (simp add: nth_append)
  qed
qed

lemma filterByMinute_window:
  assumes len: "length idx = 1440" and m: "0 \<le> m" "m < 1440"
  shows "filterByMinute idx m = concat (map (\<lambda>i. idx ! i) (window_minutes m))"
proof -
  obtain n where n: "m = int n" using m(1) nonneg_int_cases by blast
  have n1440: "n < 1440" using m n by simp
  consider "n < 60" | "60 \<le> n" "n < 1380" | "1380 \<le> n" by linarith
  then show ?thesis
  proof cases
    case 1
    have "(m - 60 + 1440) mod 1440 = int (n + 1380)"
      using mod_1440_low[of "m - 60 + 1440"] n 1 by simp
    moreover have "(m + 60) mod 1440 = int (n + 60)"
      using mod_1440_low[of "m + 60"] n 1 by simp
    ultimately show ?thesis
      using filterByMinute_ranges[OF len m] window_low[OF 1] window_minutes_nat[of n] n
      by (simp only: nat_int) simp
  next
    case 2
    have "(m - 60 + 1440) mod 1440 = int (n - 60)"
      using mod_1440_high[of "m - 60 + 1440"] n 2 by simp
    moreover have "(m + 60) mod 1440 = int (n + 60)"
      using mod_1440_low[of "m + 60"] n 2 by simp
    ultimately show ?thesis
      using filterByMinute_ranges[OF len m] window_mid[OF 2] window_minutes_nat[of n] n 2
      by (simp only: nat_int) simp
  next
    case 3
    have "(m - 60 + 1440) mod 1440 = int (n - 60)"
      using mod_1440_high[of "m - 60 + 1440"] n 3 n1440 by simp
    moreover have "(m + 60) mod 1440 = int (n - 1380)"
      using mod_1440_high[of "m + 60"] n 3 n1440 by simp
    ultimately show ?thesis
      using filterByMinute_ranges[OF len m] window_high[OF 3 n1440] window_minutes_nat[of n] n 3 n1440
      by (simp only: nat_int) simp
  qed
qed

lemma length_minute_tags: "length minute_tags = 1440"
  by (simp add: minute_tags_def)

lemma nth_minute_tags: "j < 1440 \<Longrightarrow> minute_tags ! j = [j]"
  by (simp add: minute_tags_def del: upt_Suc)

lemma concat_minute_tags: "\<forall>j\<in>set ks. j < 1440 \<Longrightarrow> concat (map (\<lambda>i. minute_tags ! i) ks) = ks"
  by (induction ks) (simp_all add: nth_minute_tags)

lemma window_minutes_bound: "j \<in> set (window_minutes m) \<Longrightarrow> j < 1440"
  by (auto simp: window_minutes_def nat_less_iff)

lemma length_window_minutes: "length (window_minutes m) = 120"
  by (simp add: window_minutes_def)

lemma filterByMinute_minute_tags:
  assumes "0 \<le> m" "m < 1440"
  shows "filterByMinute minute_tags m = window_minutes m"
  using filterByMinute_window[OF length_minute_tags assms] concat_minute_tags[of "window_minutes m"]
    window_minutes_bound[of _ m] by simp

lemma distinct_window_minutes:
  assumes "0 \<le> m" "m < 1440"
  shows "distinct (window_minutes m)"
proof -
  obtain n where n: "m = int n" using assms(1) nonneg_int_cases by blast
  have n1440: "n < 1440" using assms n by simp
  consider "n < 60" | "60 \<le> n" "n < 1380" | "1380 \<le> n" by linarith
  then have "distinct (map (\<lambda>k. (n + 1380 + k) mod 1440) [0..<120])"
  proof cases
    case 1
    have "distinct ([n + 1380..<1440] @ [0..<n + 60])" using 1 by auto
    then show ?thesis using window_low[OF 1] by simp
  next
    case 2
    have "distinct [n - 60..<n + 60]" by simp
    then show ?thesis using window_mid[OF 2] by simp
  next
    case 3
    have "distinct ([n - 60..<1440] @ [0..<n - 1380])" using 3 n1440 by auto
    then show ?thesis using window_high[OF 3 n1440] by simp
  qed
  then show ?thesis using window_minutes_nat[of n] n by simp
qed

lemma window_minutes_mem:
  "j \<in> set (window_minutes m) \<longleftrightarrow> (\<exists>k<120. j = nat ((m - 60 + int k) mod 1440))"
  by (auto simp: window_minutes_def)

lemma window_minutes_first: "nat ((m - 60 + 1440) mod 1440) \<in> set (window_minutes m)"
proof -
  have "(m - 60 + 1440) mod 1440 = (m - 60) mod 1440" by (rule mod_add_self2)
  then have "nat ((m - 60 + 1440) mod 1440) = nat ((m - 60 + int 0) mod 1440)" by simp
  then show ?thesis unfolding window_minutes_mem by (intro exI[of _ 0]) (simp del: mod_add_self2)
qed

lemma window_minutes_centre:
  assumes "0 \<le> m" "m < 1440"
  shows "nat m \<in> set (window_minutes m)"
proof -
  have "m = (m - 60 + int 60) mod 1440" using assms by simp
  then show ?thesis unfolding window_minutes_mem by (intro exI[of _ 60]) simp
qed

lemma window_minutes_last: "nat ((m + 60) mod 1440) \<notin> set (window_minutes m)"
proof
  assume "nat ((m + 60) mod 1440) \<in> set (window_minutes m)"
  then obtain k where k: "k < 120" "nat ((m + 60) mod 1440) = nat ((m - 60 + int k) mod 1440)"
    unfolding window_minutes_mem by blast
  have "(m + 60) mod 1440 = (m - 60 + int k) mod 1440"
    using k(2) by (simp add: nat_eq_iff)
  then have "1440 dvd (m + 60) - (m - 60 + int k)"
    by (simp only: mod_eq_dvd_iff)
  then have "(1440::int) dvd 120 - int k" by (simp add: algebra_simps)
  moreover have "0 < 120 - int k" "120 - int k < 1440" using k(1) by simp_all
  ultimately show False using zdvd_imp_le[of 1440 "120 - int k"] by simp
qed

text \<open>
  C7. With the sentinel \<open>-1\<close> as query minute, \<open>filterByMinute\<close> returns the
  flattening of the whole index: all 1440 buckets, in bucket order, nothing filtered.
\<close>

theorem filterByMinute_no_filter:
  assumes "length tripsByMinute = 1440"
  shows "filterByMinute tripsByMinute (- 1) = concat tripsByMinute \<and>
         filterByMinute tripsByMinute (- 1) = concat (map (\<lambda>i. tripsByMinute ! i) [0..<1440])"
proof -
  have "map (\<lambda>i. tripsByMinute ! i) [0..<1440] = tripsByMinute"
    using assms map_nth[of tripsByMinute] by simp
  then show ?thesis by (simp add: filterByMinute_def)
qed

text \<open>The statement at \<open>minute_tags\<close>.\<close>

theorem filterByMinute_no_filter_witness:
  "length minute_tags = 1440 \<and> filterByMinute minute_tags (- 1) = concat minute_tags \<and>
   filterByMinute minute_tags (- 1) = concat (map (\<lambda>i. minute_tags ! i) [0..<1440])"
proof -
  have h: "length minute_tags = 1440" by (rule length_minute_tags)
  from filterByMinute_no_filter[OF h] h show ?thesis by blast
qed

text \<open>
  C5. For every centre minute from 0 to 1439, the result of \<open>filterByMinute\<close> is the
  concatenation of exactly 120 buckets, at 120 distinct minutes of the 1440-minute
  circle.
\<close>

theorem filterByMinute_120_buckets:
  assumes "length tripsByMinute = 1440" and "0 \<le> minute" and "minute < 1440"
  shows "filterByMinute tripsByMinute minute = concat (map (\<lambda>i. tripsByMinute ! i) (window_minutes minute)) \<and>
         length (window_minutes minute) = 120 \<and> distinct (window_minutes minute) \<and>
         set (window_minutes minute) \<subseteq> {0..<1440} \<and>
         card (set (window_minutes minute)) = 120"
  using filterByMinute_window[OF assms] distinct_window_minutes[OF assms(2,3)]
    window_minutes_bound[of _ minute] distinct_card[of "window_minutes minute"]
  by (auto simp: length_window_minutes)

text \<open>The statement at \<open>minute_tags\<close> and centre minute 1400, where the window wraps.\<close>

theorem filterByMinute_120_buckets_witness:
  "length minute_tags = 1440 \<and> (0::int) \<le> 1400 \<and> (1400::int) < 1440 \<and>
   filterByMinute minute_tags 1400 = concat (map (\<lambda>i. minute_tags ! i) (window_minutes 1400)) \<and>
   length (window_minutes 1400) = 120 \<and> distinct (window_minutes 1400) \<and>
   set (window_minutes 1400) \<subseteq> {0..<1440} \<and> card (set (window_minutes 1400)) = 120"
proof -
  have h1: "length minute_tags = 1440" by (rule length_minute_tags)
  have h2: "(0::int) \<le> 1400" by simp
  have h3: "(1400::int) < 1440" by simp
  from filterByMinute_120_buckets[OF h1 h2 h3] h1 h2 h3 show ?thesis by blast
qed

text \<open>
  C10. For every centre minute \<open>m\<close> from 0 to 1439 the selected minutes are the
  half-open circular interval from \<open>m - 60\<close> to \<open>m + 60\<close>: the bucket at
  \<open>(m - 60 + 1440) mod 1440\<close> and the bucket at \<open>m\<close> are selected, the bucket at
  \<open>(m + 60) mod 1440\<close> is not. The minutes selected are read off \<open>minute_tags\<close>,
  and the result on any index of 1440 buckets is the concatenation of the buckets at
  those minutes.
\<close>

theorem filterByMinute_half_open:
  assumes "length tripsByMinute = 1440" and "0 \<le> minute" and "minute < 1440"
  shows "filterByMinute minute_tags minute = window_minutes minute \<and>
         filterByMinute tripsByMinute minute =
           concat (map (\<lambda>i. tripsByMinute ! i) (filterByMinute minute_tags minute)) \<and>
         nat ((minute - 60 + 1440) mod 1440) \<in> set (filterByMinute minute_tags minute) \<and>
         nat minute \<in> set (filterByMinute minute_tags minute) \<and>
         nat ((minute + 60) mod 1440) \<notin> set (filterByMinute minute_tags minute)"
  using filterByMinute_window[OF assms] filterByMinute_minute_tags[OF assms(2,3)]
    window_minutes_first[of minute] window_minutes_centre[OF assms(2,3)] window_minutes_last[of minute]
  by simp

text \<open>The statement at centre minute 30, on an index with one element in every bucket.\<close>

theorem filterByMinute_half_open_witness:
  "length (replicate 1440 [True]) = 1440 \<and> (0::int) \<le> 30 \<and> (30::int) < 1440 \<and>
   filterByMinute minute_tags 30 = window_minutes 30 \<and>
   filterByMinute (replicate 1440 [True]) 30 =
     concat (map (\<lambda>i. replicate 1440 [True] ! i) (filterByMinute minute_tags 30)) \<and>
   nat ((30 - 60 + 1440) mod 1440) \<in> set (filterByMinute minute_tags 30) \<and>
   nat 30 \<in> set (filterByMinute minute_tags 30) \<and>
   nat ((30 + 60) mod 1440) \<notin> set (filterByMinute minute_tags 30)"
proof -
  have h1: "length (replicate 1440 [True]) = 1440" by simp
  have h2: "(0::int) \<le> 30" by simp
  have h3: "(30::int) < 1440" by simp
  from filterByMinute_half_open[OF h1 h2 h3] h1 h2 h3 show ?thesis by blast
qed

text \<open>
  C1, as stated, fails. With \<open>minMinute = (centerMinute - 60 + 1 + 1440) mod 1440\<close>
  the window for centre minute 700 would be the buckets 641 to 759; the code selects
  the buckets 640 to 759, so bucket 640 is in the result.
\<close>

theorem filterByMinute_700_counterexample:
  "filterByMinute minute_tags 700 = [640..<760] \<and>
   filterByMinute minute_tags 700 \<noteq>
     concat (map (\<lambda>i. minute_tags ! i) [nat ((700 - 60 + 1 + 1440) mod 1440)..<nat ((700 + 60) mod 1440)]) \<and>
   640 \<in> set (filterByMinute minute_tags 700)"
proof -
  have w: "window_minutes 700 = [640..<760]"
    using window_mid[of 700] window_minutes_nat[of 700] by (simp del: upt_rec_numeral)
  have f: "filterByMinute minute_tags 700 = [640..<760]"
    using filterByMinute_minute_tags[of 700] w by simp
  have c: "concat (map (\<lambda>i. minute_tags ! i) [641..<760]) = [641..<760]"
    by (rule concat_minute_tags) simp
  have "[640..<760] \<noteq> [641..<760]"
    using arg_cong[of "[640..<760]" "[641..<760]" length] by auto
  moreover have "nat ((700 - 60 + 1 + 1440) mod 1440) = 641" "nat ((700 + 60) mod 1440) = 760" by simp_all
  ultimately show ?thesis using f c by (simp del: upt_rec_numeral)
qed

text \<open>
  C1, amended. For every centre minute from 0 to 1439, \<open>filterByMinute\<close> returns the
  flattened buckets of the half-open circular interval from \<open>minMinute\<close> to
  \<open>maxMinute\<close>, where \<open>minMinute = (centerMinute - 60 + 1440) mod 1440\<close> and
  \<open>maxMinute = (centerMinute + 60) mod 1440\<close>; when \<open>minMinute > maxMinute\<close> the result
  is the buckets from \<open>minMinute\<close> to 1439 followed by the buckets from 0 to
  \<open>maxMinute - 1\<close>. For centre minute 700 the result is exactly the buckets 640 to
  759; buckets 639 and 760 are not in it.
\<close>

theorem filterByMinute_ranges_amended:
  assumes "length tripsByMinute = 1440" and "0 \<le> minute" and "minute < 1440"
  shows "(let minMinute = (minute - 60 + 1440) mod 1440;
              maxMinute = (minute + 60) mod 1440
          in filterByMinute tripsByMinute minute =
             (if minMinute > maxMinute
              then concat (map (\<lambda>i. tripsByMinute ! i) ([nat minMinute..<1440] @ [0..<nat maxMinute]))
              else concat (map (\<lambda>i. tripsByMinute ! i) [nat minMinute..<nat maxMinute]))) \<and>
         filterByMinute tripsByMinute 700 = concat (map (\<lambda>i. tripsByMinute ! i) [640..<760]) \<and>
         filterByMinute minute_tags 700 = [640..<760] \<and>
         639 \<notin> set (filterByMinute minute_tags 700) \<and> 640 \<in> set (filterByMinute minute_tags 700) \<and>
         759 \<in> set (filterByMinute minute_tags 700) \<and> 760 \<notin> set (filterByMinute minute_tags 700)"
proof -
  have w: "window_minutes 700 = [640..<760]"
    using window_mid[of 700] window_minutes_nat[of 700] by (simp del: upt_rec_numeral)
  have f: "filterByMinute minute_tags 700 = [640..<760]"
    using filterByMinute_minute_tags[of 700] w by simp
  have g: "filterByMinute tripsByMinute 700 = concat (map (\<lambda>i. tripsByMinute ! i) [640..<760])"
    using filterByMinute_window[OF assms(1), of 700] w by simp
  show ?thesis
    using filterByMinute_ranges[OF assms] f g by (simp add: Let_def del: upt_rec_numeral)
qed

text \<open>The statement at \<open>minute_tags\<close> and centre minute 10, where the window wraps.\<close>

theorem filterByMinute_ranges_amended_witness:
  "length minute_tags = 1440 \<and> (0::int) \<le> 10 \<and> (10::int) < 1440 \<and>
   filterByMinute minute_tags 10 = concat (map (\<lambda>i. minute_tags ! i) ([1390..<1440] @ [0..<70])) \<and>
   filterByMinute minute_tags 700 = [640..<760]"
proof -
  have h1: "length minute_tags = 1440" by (rule length_minute_tags)
  have h2: "(0::int) \<le> 10" by simp
  have h3: "(10::int) < 1440" by simp
  have "filterByMinute minute_tags 10 = concat (map (\<lambda>i. minute_tags ! i) ([1390..<1440] @ [0..<70]))"
    using filterByMinute_ranges_amended[OF h1 h2 h3] by (simp add: Let_def del: upt_rec_numeral)
  moreover have "filterByMinute minute_tags 700 = [640..<760]"
    using filterByMinute_ranges_amended[OF h1 h2 h3] by blast
  ultimately show ?thesis using h1 h2 h3 by blast
qed

section \<open>Building the index\<close>

lemma hm_bound: "0 \<le> h \<Longrightarrow> h < 24 \<Longrightarrow> 0 \<le> mi \<Longrightarrow> mi < 60 \<Longrightarrow> nat (h * 60 + mi) < 1440"
  for h mi :: int
  by linarith

lemma minute_of_bound: "minute_of date = Some k \<Longrightarrow> k < 1440"
proof (cases date)
  case (TimeValue t)
  assume "minute_of date = Some k"
  then have k: "k = nat ((t div 3600000) mod 24 * 60 + (t div 60000) mod 60)"
    using TimeValue by (simp add: minute_of_def)
  have "0 \<le> (t div 3600000) mod 24" "(t div 3600000) mod 24 < 24"
       "0 \<le> (t div 60000) mod 60" "(t div 60000) mod 60 < 60" by simp_all
  then show ?thesis unfolding k by (rule hm_bound)
next
  case InvalidDate
  assume "minute_of date = Some k"
  then show ?thesis using InvalidDate by (simp add: minute_of_def)
qed

lemma minutesSinceMidnight_minute_of:
  "minutesSinceMidnight date = (case minute_of date of None \<Rightarrow> NaN | Some k \<Rightarrow> Num (int k))"
  by (cases date) (simp_all add: minutesSinceMidnight_def minute_of_def)

lemma bucket_push_NaN: "bucket_push buckets NaN d = Inl TypeError"
  by (simp add: bucket_push_def)

lemma bucket_push_Num:
  "k < length buckets \<Longrightarrow> bucket_push buckets (Num (int k)) d = Inr (buckets[k := buckets ! k @ [d]])"
  by (simp add: bucket_push_def)

lemma populate_start_invalid:
  "minute_of (started_at d) = None \<Longrightarrow> populate st d = (Inl TypeError, st)"
  by (simp add: populate_def minutesSinceMidnight_minute_of bucket_push_NaN)

lemma populate_end_invalid:
  assumes "minute_of (started_at d) = Some i" "minute_of (ended_at d) = None"
    and "length (departuresByMinute st) = 1440"
  shows "populate st d =
           (Inl TypeError, st\<lparr>departuresByMinute := (departuresByMinute st)[i := departuresByMinute st ! i @ [d]]\<rparr>)"
  using assms minute_of_bound[OF assms(1)]
  by (simp add: populate_def minutesSinceMidnight_minute_of bucket_push_NaN bucket_push_Num Let_def)

lemma populate_valid:
  assumes "minute_of (started_at d) = Some i" "minute_of (ended_at d) = Some j"
    and "length (departuresByMinute st) = 1440" "length (arrivalsByMinute st) = 1440"
  shows "populate st d =
           (Inr (), st\<lparr>departuresByMinute := (departuresByMinute st)[i := departuresByMinute st ! i @ [d]],
                        arrivalsByMinute := (arrivalsByMinute st)[j := arrivalsByMinute st ! j @ [d]]\<rparr>)"
  using assms minute_of_bound[OF assms(1)] minute_of_bound[OF assms(2)]
  by (simp add: populate_def minutesSinceMidnight_minute_of bucket_push_Num Let_def)

lemma trips_row_snd: "snd (trips_row newDate st row) = parse_dates newDate row"
  by (simp add: trips_row_def Let_def split: prod.splits sum.splits)

lemma trips_row_fst: "fst (trips_row newDate st row) = snd (populate st (parse_dates newDate row))"
  by (simp add: trips_row_def Let_def split: prod.splits sum.splits)

lemma populate_wf: "wf_state st \<Longrightarrow> wf_state (snd (populate st d))"
  apply (cases "minute_of (started_at d)")
   apply (simp add: populate_start_invalid)
  apply (cases "minute_of (ended_at d)")
   apply (simp add: populate_end_invalid wf_state_def)
  apply (simp add: populate_valid wf_state_def)
  done

lemma populate_departures:
  assumes "wf_state st" "j < 1440"
  shows "departuresByMinute (snd (populate st d)) ! j =
           departuresByMinute st ! j @ (if minute_of (started_at d) = Some j then [d] else [])"
proof (cases "minute_of (started_at d)")
  case None
  then show ?thesis by (simp add: populate_start_invalid)
next
  case (Some i)
  note i = this
  show ?thesis
  proof (cases "minute_of (ended_at d)")
    case None
    then show ?thesis using i assms minute_of_bound[OF i]
      by (simp add: populate_end_invalid wf_state_def nth_list_update)
  next
    case (Some e)
    then show ?thesis using i assms minute_of_bound[OF i]
      by (simp add: populate_valid wf_state_def nth_list_update)
  qed
qed

lemma populate_arrivals:
  assumes "wf_state st" "j < 1440"
  shows "arrivalsByMinute (snd (populate st d)) ! j =
           arrivalsByMinute st ! j @
             (if minute_of (started_at d) \<noteq> None \<and> minute_of (ended_at d) = Some j then [d] else [])"
proof (cases "minute_of (started_at d)")
  case None
  then show ?thesis by (simp add: populate_start_invalid)
next
  case (Some i)
  note i = this
  show ?thesis
  proof (cases "minute_of (ended_at d)")
    case None
    then show ?thesis using i assms
      by (simp add: populate_end_invalid wf_state_def)
  next
    case (Some e)
    then show ?thesis using i assms minute_of_bound[OF Some]
      by (simp add: populate_valid wf_state_def nth_list_update)
  qed
qed

lemma csv_rows_Cons_fst:
  "fst (csv_rows newDate st (row # rows)) = fst (csv_rows newDate (fst (trips_row newDate st row)) rows)"
  by (simp add: case_prod_unfold)

lemma csv_rows_Cons_snd:
  "snd (csv_rows newDate st (row # rows)) =
     snd (trips_row newDate st row) # snd (csv_rows newDate (fst (trips_row newDate st row)) rows)"
  by (simp add: case_prod_unfold)

lemma csv_rows_snd: "snd (csv_rows newDate st rows) = map (parse_dates newDate) rows"
proof (induction rows arbitrary: st)
  case Nil
  then show ?case by simp
next
  case (Cons row rows)
  show ?case
    using Cons.IH[of "fst (trips_row newDate st row)"]
    by (simp only: csv_rows_Cons_snd trips_row_snd list.map)
qed

lemma csv_rows_wf: "wf_state st \<Longrightarrow> wf_state (fst (csv_rows newDate st rows))"
proof (induction rows arbitrary: st)
  case Nil
  then show ?case by simp
next
  case (Cons row rows)
  have "wf_state (fst (trips_row newDate st row))"
    using Cons.prems by (simp add: trips_row_fst populate_wf)
  from Cons.IH[OF this] show ?case by (simp only: csv_rows_Cons_fst)
qed

lemma csv_rows_departures:
  assumes "wf_state st" "j < 1440"
  shows "departuresByMinute (fst (csv_rows newDate st rows)) ! j =
           departuresByMinute st ! j @
             filter (\<lambda>d. minute_of (started_at d) = Some j) (map (parse_dates newDate) rows)"
  using assms(1)
proof (induction rows arbitrary: st)
  case Nil
  then show ?case by simp
next
  case (Cons row rows)
  let ?st1 = "fst (trips_row newDate st row)"
  have wf1: "wf_state ?st1"
    using Cons.prems by (simp add: trips_row_fst populate_wf)
  have "departuresByMinute ?st1 ! j = departuresByMinute st ! j @
          (if minute_of (started_at (parse_dates newDate row)) = Some j then [parse_dates newDate row] else [])"
    using populate_departures[OF Cons.prems assms(2)] by (simp add: trips_row_fst)
  then show ?case using Cons.IH[OF wf1] by (simp add: csv_rows_Cons_fst del: csv_rows.simps)
qed

lemma csv_rows_arrivals:
  assumes "wf_state st" "j < 1440"
  shows "arrivalsByMinute (fst (csv_rows newDate st rows)) ! j =
           arrivalsByMinute st ! j @
             filter (\<lambda>d. minute_of (started_at d) \<noteq> None \<and> minute_of (ended_at d) = Some j)
               (map (parse_dates newDate) rows)"
  using assms(1)
proof (induction rows arbitrary: st)
  case Nil
  then show ?case by simp
next
  case (Cons row rows)
  let ?st1 = "fst (trips_row newDate st row)"
  have wf1: "wf_state ?st1"
    using Cons.prems by (simp add: trips_row_fst populate_wf)
  have "arrivalsByMinute ?st1 ! j = arrivalsByMinute st ! j @
          (if minute_of (started_at (parse_dates newDate row)) \<noteq> None \<and>
              minute_of (ended_at (parse_dates newDate row)) = Some j then [parse_dates newDate row] else [])"
    using populate_arrivals[OF Cons.prems assms(2)] by (simp add: trips_row_fst)
  then show ?case using Cons.IH[OF wf1] by (simp add: csv_rows_Cons_fst del: csv_rows.simps)
qed

lemma wf_init_state: "wf_state init_state"
  by (simp add: wf_state_def init_state_def)

lemma load_trips_wf: "wf_state (load_trips newDate rows)"
  by (simp add: load_trips_def csv_rows_wf wf_init_state)

lemma load_trips_departures:
  "j < 1440 \<Longrightarrow> departuresByMinute (load_trips newDate rows) ! j =
     filter (\<lambda>d. minute_of (started_at d) = Some j) (map (parse_dates newDate) rows)"
  using csv_rows_departures[OF wf_init_state, of j newDate rows]
  by (simp add: load_trips_def init_state_def)

lemma load_trips_arrivals:
  "j < 1440 \<Longrightarrow> arrivalsByMinute (load_trips newDate rows) ! j =
     filter (\<lambda>d. minute_of (started_at d) \<noteq> None \<and> minute_of (ended_at d) = Some j)
       (map (parse_dates newDate) rows)"
  using csv_rows_arrivals[OF wf_init_state, of j newDate rows]
  by (simp add: load_trips_def init_state_def)

section \<open>Counting trips per station\<close>

lemma d3_group_foldl:
  fixes key :: "'a \<Rightarrow> 'k"
  defines "step \<equiv> (\<lambda>groups v. groups(key v \<mapsto> (case groups (key v) of None \<Rightarrow> [v] | Some g \<Rightarrow> g @ [v])))"
  shows "foldl step acc values k =
     (case acc k of
        None \<Rightarrow> (if filter (\<lambda>v. key v = k) values = [] then None else Some (filter (\<lambda>v. key v = k) values))
      | Some g \<Rightarrow> Some (g @ filter (\<lambda>v. key v = k) values))"
proof (induction "values" arbitrary: acc)
  case Nil
  then show ?case by (simp split: option.splits)
next
  case (Cons v vs)
  have hit: "key v = k \<Longrightarrow> step acc v k = Some (case acc k of None \<Rightarrow> [v] | Some g \<Rightarrow> g @ [v])"
    by (simp add: step_def)
  have miss: "key v \<noteq> k \<Longrightarrow> step acc v k = acc k"
    by (simp add: step_def)
  have "foldl step acc (v # vs) k = foldl step (step acc v) vs k" by simp
  also have "\<dots> = (case step acc v k of
        None \<Rightarrow> (if filter (\<lambda>v. key v = k) vs = [] then None else Some (filter (\<lambda>v. key v = k) vs))
      | Some g \<Rightarrow> Some (g @ filter (\<lambda>v. key v = k) vs))"
    by (rule Cons.IH)
  also have "\<dots> = (case acc k of
        None \<Rightarrow> (if filter (\<lambda>v. key v = k) (v # vs) = [] then None else Some (filter (\<lambda>v. key v = k) (v # vs)))
      | Some g \<Rightarrow> Some (g @ filter (\<lambda>v. key v = k) (v # vs)))"
  proof (cases "key v = k")
    case True
    then show ?thesis by (simp add: hit split: option.splits)
  next
    case False
    then show ?thesis by (simp add: miss split: option.splits)
  qed
  finally show ?case .
qed

lemma d3_group_filter:
  "d3_group values key k =
     (if filter (\<lambda>v. key v = k) values = [] then None else Some (filter (\<lambda>v. key v = k) values))"
  unfolding d3_group_def by (simp only: d3_group_foldl) simp

lemma rollup_count:
  "nullish (d3_rollup values js_length key k) (Num 0) = Num (int (length (filter (\<lambda>v. key v = k) values)))"
  by (simp add: d3_rollup_def d3_group_filter nullish_def js_length_def)

lemma write_traffic_counts:
  "write_traffic (d3_rollup depTrips js_length dkey) (d3_rollup arrTrips js_length akey) station =
     station\<lparr>departures := Some (Num (int (length (filter (\<lambda>d. dkey d = short_name station) depTrips)))),
             arrivals := Some (Num (int (length (filter (\<lambda>d. akey d = short_name station) arrTrips)))),
             totalTraffic := Some (Num (int (length (filter (\<lambda>d. dkey d = short_name station) depTrips)) +
                                        int (length (filter (\<lambda>d. akey d = short_name station) arrTrips))))\<rparr>"
  by (simp add: write_traffic_def rollup_count to_number_def Let_def)

lemma write_traffic_twice:
  "write_traffic dm am (write_traffic dm' am' station) = write_traffic dm am station"
  by (simp add: write_traffic_def Let_def)

lemma write_traffic_frame:
  "short_name (write_traffic dm am station) = short_name station \<and>
   station.more (write_traffic dm am station) = station.more station"
  by (simp add: write_traffic_def Let_def)

lemma count_one:
  "distinct ids \<Longrightarrow> k \<in> set ids \<Longrightarrow> (\<Sum>i\<leftarrow>ids. if k = i then 1 else 0) = (1::nat)"
  by (induction ids) auto

lemma count_by_key:
  assumes "distinct ids" "\<forall>x\<in>set xs. key x \<in> set ids"
  shows "(\<Sum>i\<leftarrow>ids. length (filter (\<lambda>x. key x = i) xs)) = length xs"
  using assms(2)
proof (induction xs)
  case Nil
  then show ?case by simp
next
  case (Cons x xs)
  have "(\<Sum>i\<leftarrow>ids. length (filter (\<lambda>y. key y = i) (x # xs))) =
        (\<Sum>i\<leftarrow>ids. (if key x = i then 1 else 0) + length (filter (\<lambda>y. key y = i) xs))"
    by (intro arg_cong[where f = sum_list] map_cong) auto
  also have "\<dots> = (\<Sum>i\<leftarrow>ids. if key x = i then 1 else 0) + (\<Sum>i\<leftarrow>ids. length (filter (\<lambda>y. key y = i) xs))"
    by (simp add: sum_list_addf)
  finally show ?case using Cons count_one[OF assms(1), of "key x"] by simp
qed

section \<open>What the index holds\<close>

lemma mset_concat_push:
  assumes "i < length buckets"
  shows "mset (concat (buckets[i := buckets ! i @ [d]])) = add_mset d (mset (concat buckets))"
proof -
  have "buckets = take i buckets @ buckets ! i # drop (Suc i) buckets"
    using assms by (rule id_take_nth_drop)
  then have "mset (concat buckets) =
      mset (concat (take i buckets)) + mset (buckets ! i) + mset (concat (drop (Suc i) buckets))"
    by (metis concat.simps(2) concat_append mset_append add.assoc)
  moreover have "buckets[i := buckets ! i @ [d]] = take i buckets @ (buckets ! i @ [d]) # drop (Suc i) buckets"
    using assms by (rule upd_conv_take_nth_drop)
  then have "mset (concat (buckets[i := buckets ! i @ [d]])) =
      mset (concat (take i buckets)) + mset (buckets ! i @ [d]) + mset (concat (drop (Suc i) buckets))"
    by (metis concat.simps(2) concat_append mset_append add.assoc)
  ultimately show ?thesis by simp
qed

lemma populate_mset_departures:
  assumes "wf_state st"
  shows "mset (concat (departuresByMinute (snd (populate st d)))) =
           mset (concat (departuresByMinute st)) + (if minute_of (started_at d) \<noteq> None then {#d#} else {#})"
proof (cases "minute_of (started_at d)")
  case None
  then show ?thesis by (simp add: populate_start_invalid)
next
  case (Some i)
  note i = this
  have il: "i < length (departuresByMinute st)"
    using assms minute_of_bound[OF i] by (simp add: wf_state_def)
  show ?thesis
  proof (cases "minute_of (ended_at d)")
    case None
    then show ?thesis using i assms mset_concat_push[OF il]
      by (simp add: populate_end_invalid wf_state_def)
  next
    case (Some e)
    then show ?thesis using i assms mset_concat_push[OF il]
      by (simp add: populate_valid wf_state_def)
  qed
qed

lemma populate_mset_arrivals:
  assumes "wf_state st"
  shows "mset (concat (arrivalsByMinute (snd (populate st d)))) =
           mset (concat (arrivalsByMinute st)) + (if valid_minutes d then {#d#} else {#})"
proof (cases "minute_of (started_at d)")
  case None
  then show ?thesis by (simp add: populate_start_invalid valid_minutes_def)
next
  case (Some i)
  note i = this
  show ?thesis
  proof (cases "minute_of (ended_at d)")
    case None
    then show ?thesis using i assms
      by (simp add: populate_end_invalid wf_state_def valid_minutes_def)
  next
    case (Some e)
    have el: "e < length (arrivalsByMinute st)"
      using assms minute_of_bound[OF Some] by (simp add: wf_state_def)
    show ?thesis using Some i assms mset_concat_push[OF el]
      by (simp add: populate_valid wf_state_def valid_minutes_def)
  qed
qed

lemma csv_rows_mset_departures:
  assumes "wf_state st"
  shows "mset (concat (departuresByMinute (fst (csv_rows newDate st rows)))) =
           mset (concat (departuresByMinute st)) +
           mset (filter (\<lambda>d. minute_of (started_at d) \<noteq> None) (map (parse_dates newDate) rows))"
  using assms
proof (induction rows arbitrary: st)
  case Nil
  then show ?case by simp
next
  case (Cons row rows)
  let ?st1 = "fst (trips_row newDate st row)"
  have wf1: "wf_state ?st1"
    using Cons.prems by (simp add: trips_row_fst populate_wf)
  have "mset (concat (departuresByMinute ?st1)) = mset (concat (departuresByMinute st)) +
          (if minute_of (started_at (parse_dates newDate row)) \<noteq> None then {#parse_dates newDate row#} else {#})"
    using populate_mset_departures[OF Cons.prems] by (simp add: trips_row_fst)
  then show ?case using Cons.IH[OF wf1] by (simp add: csv_rows_Cons_fst del: csv_rows.simps)
qed

lemma csv_rows_mset_arrivals:
  assumes "wf_state st"
  shows "mset (concat (arrivalsByMinute (fst (csv_rows newDate st rows)))) =
           mset (concat (arrivalsByMinute st)) +
           mset (filter valid_minutes (map (parse_dates newDate) rows))"
  using assms
proof (induction rows arbitrary: st)
  case Nil
  then show ?case by simp
next
  case (Cons row rows)
  let ?st1 = "fst (trips_row newDate st row)"
  have wf1: "wf_state ?st1"
    using Cons.prems by (simp add: trips_row_fst populate_wf)
  have "mset (concat (arrivalsByMinute ?st1)) = mset (concat (arrivalsByMinute st)) +
          (if valid_minutes (parse_dates newDate row) then {#parse_dates newDate row#} else {#})"
    using populate_mset_arrivals[OF Cons.prems] by (simp add: trips_row_fst)
  then show ?case using Cons.IH[OF wf1] by (simp add: csv_rows_Cons_fst del: csv_rows.simps)
qed

lemma concat_replicate_Nil: "concat (replicate n []) = []"
  by (induction n) simp_all

lemma load_trips_mset_departures:
  "mset (concat (departuresByMinute (load_trips newDate rows))) =
     mset (filter (\<lambda>d. minute_of (started_at d) \<noteq> None) (map (parse_dates newDate) rows))"
  using csv_rows_mset_departures[OF wf_init_state, of newDate rows]
  by (simp add: load_trips_def init_state_def concat_replicate_Nil)

lemma load_trips_mset_arrivals:
  "mset (concat (arrivalsByMinute (load_trips newDate rows))) =
     mset (filter valid_minutes (map (parse_dates newDate) rows))"
  using csv_rows_mset_arrivals[OF wf_init_state, of newDate rows]
  by (simp add: load_trips_def init_state_def concat_replicate_Nil)

lemma length_filter_mset_eq:
  "mset xs = mset ys \<Longrightarrow> length (filter P xs) = length (filter P ys)"
  by (metis mset_filter size_mset)

section \<open>The counts written on the roster\<close>

lemma computeStationTraffic_counts:
  "computeStationTraffic st stations timeFilter =
     map (\<lambda>station. station
            \<lparr>departures := Some (Num (int (length (filter (\<lambda>d. start_station_id d = short_name station)
                                                   (filterByMinute (departuresByMinute st) timeFilter))))),
             arrivals := Some (Num (int (length (filter (\<lambda>d. end_station_id d = short_name station)
                                                 (filterByMinute (arrivalsByMinute st) timeFilter))))),
             totalTraffic := Some (Num (int (length (filter (\<lambda>d. start_station_id d = short_name station)
                                                     (filterByMinute (departuresByMinute st) timeFilter))) +
                                        int (length (filter (\<lambda>d. end_station_id d = short_name station)
                                                     (filterByMinute (arrivalsByMinute st) timeFilter)))))\<rparr>)
         stations"
  by (simp add: computeStationTraffic_def Let_def write_traffic_counts)

lemma unfiltered_counts:
  "computeStationTraffic (load_trips newDate rows) stations (- 1) =
     map (\<lambda>station. station
            \<lparr>departures := Some (Num (int (length (filter (\<lambda>d. start_station_id d = short_name station)
                 (filter (\<lambda>d. minute_of (started_at d) \<noteq> None) (map (parse_dates newDate) rows)))))),
             arrivals := Some (Num (int (length (filter (\<lambda>d. end_station_id d = short_name station)
                 (filter valid_minutes (map (parse_dates newDate) rows)))))),
             totalTraffic := Some (Num (int (length (filter (\<lambda>d. start_station_id d = short_name station)
                 (filter (\<lambda>d. minute_of (started_at d) \<noteq> None) (map (parse_dates newDate) rows)))) +
               int (length (filter (\<lambda>d. end_station_id d = short_name station)
                 (filter valid_minutes (map (parse_dates newDate) rows))))))\<rparr>)
         stations"
proof -
  have d: "filterByMinute (departuresByMinute (load_trips newDate rows)) (- 1) =
             concat (departuresByMinute (load_trips newDate rows))"
    by (simp add: filterByMinute_def)
  have a: "filterByMinute (arrivalsByMinute (load_trips newDate rows)) (- 1) =
             concat (arrivalsByMinute (load_trips newDate rows))"
    by (simp add: filterByMinute_def)
  have dl: "length (filter P (concat (departuresByMinute (load_trips newDate rows)))) =
            length (filter P (filter (\<lambda>d. minute_of (started_at d) \<noteq> None) (map (parse_dates newDate) rows)))" for P
    by (rule length_filter_mset_eq) (rule load_trips_mset_departures)
  have al: "length (filter P (concat (arrivalsByMinute (load_trips newDate rows)))) =
            length (filter P (filter valid_minutes (map (parse_dates newDate) rows)))" for P
    by (rule length_filter_mset_eq) (rule load_trips_mset_arrivals)
  show ?thesis
    unfolding computeStationTraffic_counts d a dl al ..
qed

lemma good_trip:
  "minute_of (started_at (parse_dates sample_newDate good_row)) = Some 480"
  "minute_of (ended_at (parse_dates sample_newDate good_row)) = Some 505"
  "start_station_id (parse_dates sample_newDate good_row) = ''A''"
  "end_station_id (parse_dates sample_newDate good_row) = ''B''"
  by (simp_all add: parse_dates_def good_row_def sample_newDate_def minute_of_def)

lemma half_trip:
  "minute_of (started_at (parse_dates sample_newDate half_row)) = Some 480"
  "minute_of (ended_at (parse_dates sample_newDate half_row)) = None"
  "start_station_id (parse_dates sample_newDate half_row) = ''A''"
  "end_station_id (parse_dates sample_newDate half_row) = ''B''"
  by (simp_all add: parse_dates_def half_row_def sample_newDate_def minute_of_def)

lemma concat_eq_Nil_nth: "(\<And>j. j < length xss \<Longrightarrow> xss ! j = []) \<Longrightarrow> concat xss = []"
  by (auto simp: in_set_conv_nth)

text \<open>
  C2 at the row \<open>half_row\<close>, whose \<open>started_at\<close> is a date and whose \<open>ended_at\<close> is
  not. The claim says the trip is left out of both indexes. In the code the push on the
  departure bucket has happened when the push on \<open>arrivalsByMinute[NaN]\<close> throws, and
  the empty \<open>catch\<close> does not undo it: the trip is in departure bucket 480 and in no
  arrival bucket.
\<close>

theorem half_row_indexed:
  "departuresByMinute (load_trips sample_newDate [half_row]) ! 480 = [parse_dates sample_newDate half_row] \<and>
   concat (arrivalsByMinute (load_trips sample_newDate [half_row])) = [] \<and>
   minutesSinceMidnight (ended_at (parse_dates sample_newDate half_row)) = NaN \<and>
   fst (populate init_state (parse_dates sample_newDate half_row)) = Inl TypeError"
proof -
  have 1: "departuresByMinute (load_trips sample_newDate [half_row]) ! 480 = [parse_dates sample_newDate half_row]"
    by (simp add: load_trips_departures half_trip)
  have "arrivalsByMinute (load_trips sample_newDate [half_row]) ! j = []" if "j < 1440" for j
    using that by (simp add: load_trips_arrivals half_trip)
  moreover have "length (arrivalsByMinute (load_trips sample_newDate [half_row])) = 1440"
    using load_trips_wf[of sample_newDate "[half_row]"] by (simp add: wf_state_def)
  ultimately have 2: "concat (arrivalsByMinute (load_trips sample_newDate [half_row])) = []"
    by (intro concat_eq_Nil_nth) simp
  have 3: "minutesSinceMidnight (ended_at (parse_dates sample_newDate half_row)) = NaN"
    by (simp add: minutesSinceMidnight_minute_of half_trip)
  have "length (departuresByMinute (init_state :: jsdate trip index_state)) = 1440"
    by (simp add: init_state_def)
  then have 4: "fst (populate init_state (parse_dates sample_newDate half_row)) = Inl TypeError"
    using populate_end_invalid[OF half_trip(1,2), of init_state] by simp
  show ?thesis using 1 2 3 4 by blast
qed

text \<open>
  C3 at the rows \<open>good_row\<close> and \<open>half_row\<close>. The claim says the bucket sizes of the
  two indexes have the same sum, the number of trips with valid minutes. Here the
  departure buckets hold two trips, the arrival buckets one, and one trip has valid
  minutes.
\<close>

theorem bucket_sizes_differ:
  "sum_list (map length (departuresByMinute (load_trips sample_newDate [good_row, half_row]))) = 2 \<and>
   sum_list (map length (arrivalsByMinute (load_trips sample_newDate [good_row, half_row]))) = 1 \<and>
   length (filter valid_minutes (map (parse_dates sample_newDate) [good_row, half_row])) = 1"
proof -
  have "size (mset (concat (departuresByMinute (load_trips sample_newDate [good_row, half_row])))) = 2"
    unfolding load_trips_mset_departures by (simp add: good_trip half_trip)
  then have 1: "sum_list (map length (departuresByMinute (load_trips sample_newDate [good_row, half_row]))) = 2"
    by (simp add: length_concat)
  have "size (mset (concat (arrivalsByMinute (load_trips sample_newDate [good_row, half_row])))) = 1"
    unfolding load_trips_mset_arrivals by (simp add: good_trip half_trip valid_minutes_def)
  then have 2: "sum_list (map length (arrivalsByMinute (load_trips sample_newDate [good_row, half_row]))) = 1"
    by (simp add: length_concat)
  have 3: "length (filter valid_minutes (map (parse_dates sample_newDate) [good_row, half_row])) = 1"
    by (simp add: good_trip half_trip valid_minutes_def)
  show ?thesis using 1 2 3 by blast
qed

text \<open>
  C6, as stated, fails. With the roster holding station A only and one trip from A to
  B, both timestamps valid, the totalTraffic of the roster sums to 1, not to twice the
  number of valid trips.
\<close>

theorem unfiltered_total_counterexample:
  "map totalTraffic (computeStationTraffic (load_trips sample_newDate [good_row]) [station_A] (- 1)) =
     [Some (Num 1)] \<and>
   length (filter valid_minutes (map (parse_dates sample_newDate) [good_row])) = 1 \<and>
   \<not> (\<exists>totals.
        map totalTraffic (computeStationTraffic (load_trips sample_newDate [good_row]) [station_A] (- 1)) =
          map (\<lambda>n. Some (Num n)) totals \<and>
        sum_list totals = 2 * int (length (filter valid_minutes (map (parse_dates sample_newDate) [good_row]))))"
proof -
  have r: "map totalTraffic (computeStationTraffic (load_trips sample_newDate [good_row]) [station_A] (- 1)) =
             [Some (Num 1)]"
    unfolding unfiltered_counts by (simp add: good_trip valid_minutes_def station_A_def)
  have v: "length (filter valid_minutes (map (parse_dates sample_newDate) [good_row])) = 1"
    by (simp add: good_trip valid_minutes_def)
  have "sum_list totals \<noteq> 2" if "[Some (Num 1)] = map (\<lambda>n. Some (Num n)) totals" for totals :: "int list"
  proof -
    from that have "totals = [1]" by (cases totals) auto
    then show ?thesis by simp
  qed
  then have "\<not> (\<exists>totals. [Some (Num 1)] = map (\<lambda>n. Some (Num n)) totals \<and> sum_list totals = 2 * int 1)"
    by auto
  then show ?thesis unfolding r v using r v by simp
qed

lemma set_load_trips_departures:
  "set (concat (departuresByMinute (load_trips newDate rows))) =
     {d \<in> set (map (parse_dates newDate) rows). minute_of (started_at d) \<noteq> None}"
proof -
  have "set (concat (departuresByMinute (load_trips newDate rows))) =
        set_mset (mset (concat (departuresByMinute (load_trips newDate rows))))" by simp
  also have "\<dots> = set_mset (mset (filter (\<lambda>d. minute_of (started_at d) \<noteq> None) (map (parse_dates newDate) rows)))"
    by (simp only: load_trips_mset_departures)
  finally show ?thesis by simp
qed

lemma set_load_trips_arrivals:
  "set (concat (arrivalsByMinute (load_trips newDate rows))) =
     {d \<in> set (map (parse_dates newDate) rows). valid_minutes d}"
proof -
  have "set (concat (arrivalsByMinute (load_trips newDate rows))) =
        set_mset (mset (concat (arrivalsByMinute (load_trips newDate rows))))" by simp
  also have "\<dots> = set_mset (mset (filter valid_minutes (map (parse_dates newDate) rows)))"
    by (simp only: load_trips_mset_arrivals)
  finally show ?thesis by simp
qed

text \<open>
  What holds of the index for every list of rows: a trip with valid minutes is in the
  departure bucket of its start minute and the arrival bucket of its end minute and in
  no other, a trip whose start is not a date is in no bucket, and the bucket sizes sum
  to the number of trips with a valid start and to the number of trips with valid
  minutes.
\<close>

lemma valid_trip_slots:
  assumes "d \<in> set (map (parse_dates newDate) rows)" and "valid_minutes d" and "j < 1440"
  shows "d \<in> set (departuresByMinute (load_trips newDate rows) ! j) \<longleftrightarrow> minute_of (started_at d) = Some j"
    and "d \<in> set (arrivalsByMinute (load_trips newDate rows) ! j) \<longleftrightarrow> minute_of (ended_at d) = Some j"
  using assms by (auto simp: load_trips_departures load_trips_arrivals valid_minutes_def)

lemma start_invalid_skipped:
  assumes "minute_of (started_at d) = None"
  shows "d \<notin> set (concat (departuresByMinute (load_trips newDate rows)))"
    and "d \<notin> set (concat (arrivalsByMinute (load_trips newDate rows)))"
  unfolding set_load_trips_departures set_load_trips_arrivals
  using assms by (simp_all add: valid_minutes_def)

lemma bucket_size_sums:
  "sum_list (map length (departuresByMinute (load_trips newDate rows))) =
     length (filter (\<lambda>d. minute_of (started_at d) \<noteq> None) (map (parse_dates newDate) rows))"
  "sum_list (map length (arrivalsByMinute (load_trips newDate rows))) =
     length (filter valid_minutes (map (parse_dates newDate) rows))"
proof -
  have "length (concat (departuresByMinute (load_trips newDate rows))) =
        length (filter (\<lambda>d. minute_of (started_at d) \<noteq> None) (map (parse_dates newDate) rows))"
    using arg_cong[OF load_trips_mset_departures, of size newDate rows] by (simp only: size_mset)
  then show "sum_list (map length (departuresByMinute (load_trips newDate rows))) =
     length (filter (\<lambda>d. minute_of (started_at d) \<noteq> None) (map (parse_dates newDate) rows))"
    by (simp only: length_concat)
  have "length (concat (arrivalsByMinute (load_trips newDate rows))) =
        length (filter valid_minutes (map (parse_dates newDate) rows))"
    using arg_cong[OF load_trips_mset_arrivals, of size newDate rows] by (simp only: size_mset)
  then show "sum_list (map length (arrivalsByMinute (load_trips newDate rows))) =
     length (filter valid_minutes (map (parse_dates newDate) rows))"
    by (simp only: length_concat)
qed

text \<open>
  C4. On every station of the roster, in roster order, \<open>computeStationTraffic\<close> writes
  departures = the number of selected departure trips whose \<open>start_station_id\<close> is the
  station's \<open>short_name\<close>, arrivals = the number of selected arrival trips whose
  \<open>end_station_id\<close> is, and totalTraffic = their sum. A station that no selected trip
  names gets departures 0, arrivals 0 and totalTraffic 0, each present.
\<close>

theorem computeStationTraffic_per_station:
  "(let depTrips = filterByMinute (departuresByMinute st) timeFilter;
        arrTrips = filterByMinute (arrivalsByMinute st) timeFilter;
        result = computeStationTraffic st stations timeFilter
    in result =
         map (\<lambda>station. station
                \<lparr>departures := Some (Num (int (length (filter (\<lambda>d. start_station_id d = short_name station) depTrips)))),
                 arrivals := Some (Num (int (length (filter (\<lambda>d. end_station_id d = short_name station) arrTrips)))),
                 totalTraffic := Some (Num (int (length (filter (\<lambda>d. start_station_id d = short_name station) depTrips)) +
                                            int (length (filter (\<lambda>d. end_station_id d = short_name station) arrTrips))))\<rparr>)
             stations \<and>
       (\<forall>i<length stations.
          (\<forall>d\<in>set depTrips. start_station_id d \<noteq> short_name (stations ! i)) \<longrightarrow>
          (\<forall>d\<in>set arrTrips. end_station_id d \<noteq> short_name (stations ! i)) \<longrightarrow>
          departures (result ! i) = Some (Num 0) \<and> arrivals (result ! i) = Some (Num 0) \<and>
          totalTraffic (result ! i) = Some (Num 0)))"
proof -
  have z: "(\<forall>x\<in>set xs. \<not> P x) \<Longrightarrow> filter P xs = []" for P and xs :: "'e list"
    by (simp add: filter_empty_conv)
  show ?thesis
    unfolding Let_def computeStationTraffic_counts
    by (intro conjI allI impI) (simp_all add: z)
qed

text \<open>The statement at an index of one trip from A to B and the roster A, B, C: station C has no trip.\<close>

theorem computeStationTraffic_per_station_witness:
  "computeStationTraffic (load_trips sample_newDate [good_row]) [station_A, station_B, station_C] (- 1) =
     [station_A\<lparr>departures := Some (Num 1), arrivals := Some (Num 0), totalTraffic := Some (Num 1)\<rparr>,
      station_B\<lparr>departures := Some (Num 0), arrivals := Some (Num 1), totalTraffic := Some (Num 1)\<rparr>,
      station_C\<lparr>departures := Some (Num 0), arrivals := Some (Num 0), totalTraffic := Some (Num 0)\<rparr>] \<and>
   departures (computeStationTraffic (load_trips sample_newDate [good_row]) [station_A, station_B, station_C] (- 1) ! 2)
     = Some (Num 0) \<and>
   arrivals (computeStationTraffic (load_trips sample_newDate [good_row]) [station_A, station_B, station_C] (- 1) ! 2)
     = Some (Num 0) \<and>
   totalTraffic (computeStationTraffic (load_trips sample_newDate [good_row]) [station_A, station_B, station_C] (- 1) ! 2)
     = Some (Num 0)"
proof -
  let ?st = "load_trips sample_newDate [good_row]"
  let ?stations = "[station_A, station_B, station_C]"
  note t = computeStationTraffic_per_station[of ?st "- 1" ?stations, unfolded Let_def]
  have d: "filterByMinute (departuresByMinute ?st) (- 1) = concat (departuresByMinute ?st)"
    by (simp add: filterByMinute_def)
  have a: "filterByMinute (arrivalsByMinute ?st) (- 1) = concat (arrivalsByMinute ?st)"
    by (simp add: filterByMinute_def)
  have nd: "\<forall>d\<in>set (filterByMinute (departuresByMinute ?st) (- 1)). start_station_id d \<noteq> short_name (?stations ! 2)"
    unfolding d set_load_trips_departures by (simp add: good_trip station_C_def)
  have na: "\<forall>d\<in>set (filterByMinute (arrivalsByMinute ?st) (- 1)). end_station_id d \<noteq> short_name (?stations ! 2)"
    unfolding a set_load_trips_arrivals by (simp add: good_trip station_C_def)
  have i: "2 < length ?stations" by simp
  from t have zero: "departures (computeStationTraffic ?st ?stations (- 1) ! 2) = Some (Num 0) \<and>
      arrivals (computeStationTraffic ?st ?stations (- 1) ! 2) = Some (Num 0) \<and>
      totalTraffic (computeStationTraffic ?st ?stations (- 1) ! 2) = Some (Num 0)"
    using i nd na by blast
  have dl: "length (filter P (concat (departuresByMinute ?st))) =
            length (filter P (filter (\<lambda>d. minute_of (started_at d) \<noteq> None) (map (parse_dates sample_newDate) [good_row])))" for P
    by (rule length_filter_mset_eq) (rule load_trips_mset_departures)
  have al: "length (filter P (concat (arrivalsByMinute ?st))) =
            length (filter P (filter valid_minutes (map (parse_dates sample_newDate) [good_row])))" for P
    by (rule length_filter_mset_eq) (rule load_trips_mset_arrivals)
  from t have "computeStationTraffic ?st ?stations (- 1) =
     [station_A\<lparr>departures := Some (Num 1), arrivals := Some (Num 0), totalTraffic := Some (Num 1)\<rparr>,
      station_B\<lparr>departures := Some (Num 0), arrivals := Some (Num 1), totalTraffic := Some (Num 1)\<rparr>,
      station_C\<lparr>departures := Some (Num 0), arrivals := Some (Num 0), totalTraffic := Some (Num 0)\<rparr>]"
    unfolding d a dl al
    by (simp add: good_trip valid_minutes_def station_A_def station_B_def station_C_def)
  with zero show ?thesis by blast
qed

lemma map2_write_traffic:
  "map2 (\<lambda>station written. station\<lparr>departures := departures written, arrivals := arrivals written,
                                       totalTraffic := totalTraffic written\<rparr>) xs (map (write_traffic dm am) xs)
        = map (write_traffic dm am) xs"
  by (induction xs) (simp_all add: write_traffic_def Let_def)

lemma computeStationTraffic_frame:
  "length (computeStationTraffic st stations timeFilter) = length stations \<and>
   map short_name (computeStationTraffic st stations timeFilter) = map short_name stations \<and>
   map station.more (computeStationTraffic st stations timeFilter) = map station.more stations \<and>
   computeStationTraffic st stations timeFilter =
     map2 (\<lambda>station written. station\<lparr>departures := departures written, arrivals := arrivals written,
                                       totalTraffic := totalTraffic written\<rparr>)
       stations (computeStationTraffic st stations timeFilter)"
  by (simp add: computeStationTraffic_def Let_def write_traffic_frame comp_def map2_write_traffic)

lemma sum_counts_by_station:
  assumes "distinct (map short_name stations)"
    and "\<forall>d\<in>set trips. key d \<in> set (map short_name stations)"
  shows "(\<Sum>station\<leftarrow>stations. int (length (filter (\<lambda>d. key d = short_name station) trips))) = int (length trips)"
proof -
  have "(\<Sum>station\<leftarrow>stations. int (length (filter (\<lambda>d. key d = short_name station) trips))) =
        int (\<Sum>i\<leftarrow>map short_name stations. length (filter (\<lambda>d. key d = i) trips))"
    by (induction stations) simp_all
  then show ?thesis using count_by_key[OF assms] by simp
qed

text \<open>
  C6, amended. The unfiltered query gives every station departures, arrivals and
  totalTraffic with departures + arrivals = totalTraffic. When the identifiers of the
  roster are pairwise distinct, every trip of the departure index starts at a station
  of the roster, every trip of the arrival index ends at one, and every trip whose
  start timestamp is a valid date has a valid end timestamp, the totalTraffic of the
  roster sums to twice the number of trips with valid minutes.
\<close>

theorem computeStationTraffic_unfiltered_amended:
  "(\<forall>s\<in>set (computeStationTraffic st stations (- 1)).
      \<exists>dep arr. departures s = Some (Num dep) \<and> arrivals s = Some (Num arr) \<and>
                totalTraffic s = Some (Num (dep + arr))) \<and>
   (distinct (map short_name stations) \<longrightarrow>
    (\<forall>d\<in>set (concat (departuresByMinute (load_trips newDate rows))).
        start_station_id d \<in> set (map short_name stations)) \<longrightarrow>
    (\<forall>d\<in>set (concat (arrivalsByMinute (load_trips newDate rows))).
        end_station_id d \<in> set (map short_name stations)) \<longrightarrow>
    (\<forall>d\<in>set (map (parse_dates newDate) rows).
        minute_of (started_at d) \<noteq> None \<longrightarrow> minute_of (ended_at d) \<noteq> None) \<longrightarrow>
    (\<exists>totals.
        map totalTraffic (computeStationTraffic (load_trips newDate rows) stations (- 1)) =
          map (\<lambda>n. Some (Num n)) totals \<and>
        sum_list totals = 2 * int (length (filter valid_minutes (map (parse_dates newDate) rows)))))"
proof (intro conjI impI)
  show "\<forall>s\<in>set (computeStationTraffic st stations (- 1)).
      \<exists>dep arr. departures s = Some (Num dep) \<and> arrivals s = Some (Num arr) \<and>
                totalTraffic s = Some (Num (dep + arr))"
    unfolding computeStationTraffic_counts by auto
next
  define D where "D = filter (\<lambda>d. minute_of (started_at d) \<noteq> None) (map (parse_dates newDate) rows)"
  define A where "A = filter valid_minutes (map (parse_dates newDate) rows)"
  define totals where
    "totals = map (\<lambda>station. int (length (filter (\<lambda>d. start_station_id d = short_name station) D)) +
                             int (length (filter (\<lambda>d. end_station_id d = short_name station) A))) stations"
  assume dist: "distinct (map short_name stations)"
    and kd: "\<forall>d\<in>set (concat (departuresByMinute (load_trips newDate rows))).
               start_station_id d \<in> set (map short_name stations)"
    and ka: "\<forall>d\<in>set (concat (arrivalsByMinute (load_trips newDate rows))).
               end_station_id d \<in> set (map short_name stations)"
    and both: "\<forall>d\<in>set (map (parse_dates newDate) rows).
               minute_of (started_at d) \<noteq> None \<longrightarrow> minute_of (ended_at d) \<noteq> None"
  have kd': "\<forall>d\<in>set D. start_station_id d \<in> set (map short_name stations)"
    using kd unfolding set_load_trips_departures D_def by simp
  have ka': "\<forall>d\<in>set A. end_station_id d \<in> set (map short_name stations)"
    using ka unfolding set_load_trips_arrivals A_def by simp
  have DA: "D = A"
    unfolding D_def A_def using both by (intro filter_cong) (auto simp: valid_minutes_def)
  have "sum_list totals =
          (\<Sum>station\<leftarrow>stations. int (length (filter (\<lambda>d. start_station_id d = short_name station) D))) +
          (\<Sum>station\<leftarrow>stations. int (length (filter (\<lambda>d. end_station_id d = short_name station) A)))"
    unfolding totals_def by (simp add: sum_list_addf comp_def)
  also have "\<dots> = int (length D) + int (length A)"
    by (simp only: sum_counts_by_station[OF dist kd'] sum_counts_by_station[OF dist ka'])
  also have "\<dots> = 2 * int (length A)" by (simp add: DA)
  finally have s: "sum_list totals = 2 * int (length (filter valid_minutes (map (parse_dates newDate) rows)))"
    unfolding A_def .
  have m: "map totalTraffic (computeStationTraffic (load_trips newDate rows) stations (- 1)) =
             map (\<lambda>n. Some (Num n)) totals"
    unfolding unfiltered_counts totals_def D_def A_def by (simp add: comp_def)
  from m s show "\<exists>totals.
        map totalTraffic (computeStationTraffic (load_trips newDate rows) stations (- 1)) =
          map (\<lambda>n. Some (Num n)) totals \<and>
        sum_list totals = 2 * int (length (filter valid_minutes (map (parse_dates newDate) rows)))"
    by blast
qed

text \<open>The statement at one trip from A to B and the roster A, B.\<close>

theorem computeStationTraffic_unfiltered_amended_witness:
  "\<exists>totals.
     map totalTraffic (computeStationTraffic (load_trips sample_newDate [good_row]) [station_A, station_B] (- 1)) =
       map (\<lambda>n. Some (Num n)) totals \<and>
     sum_list totals = 2 * int (length (filter valid_minutes (map (parse_dates sample_newDate) [good_row])))"
proof -
  have h1: "distinct (map short_name [station_A, station_B])"
    by (simp add: station_A_def station_B_def)
  have h2: "\<forall>d\<in>set (concat (departuresByMinute (load_trips sample_newDate [good_row]))).
              start_station_id d \<in> set (map short_name [station_A, station_B])"
    unfolding set_load_trips_departures by (simp add: good_trip station_A_def station_B_def)
  have h3: "\<forall>d\<in>set (concat (arrivalsByMinute (load_trips sample_newDate [good_row]))).
              end_station_id d \<in> set (map short_name [station_A, station_B])"
    unfolding set_load_trips_arrivals by (simp add: good_trip station_A_def station_B_def)
  have h4: "\<forall>d\<in>set (map (parse_dates sample_newDate) [good_row]).
              minute_of (started_at d) \<noteq> None \<longrightarrow> minute_of (ended_at d) \<noteq> None"
    by (simp add: good_trip)
  from computeStationTraffic_unfiltered_amended[of "load_trips sample_newDate [good_row]" "[station_A, station_B]"
      sample_newDate "[good_row]"] h1 h2 h3 h4
  show ?thesis by blast
qed

section \<open>What the object store keeps\<close>

lemma write_traffic_h_other_object:
  "r \<noteq> station \<Longrightarrow> write_traffic_h dm am h station r = h r"
  by (simp add: write_traffic_h_def set_prop_def Let_def)

lemma write_traffic_h_other_prop:
  "p \<notin> derived \<Longrightarrow> write_traffic_h dm am h station r p = h r p"
  by (simp add: write_traffic_h_def set_prop_def Let_def derived_def)

lemma foldl_write_other_object:
  "r \<notin> set stations \<Longrightarrow> foldl (write_traffic_h dm am) h stations r = h r"
  by (induction stations arbitrary: h) (simp_all add: write_traffic_h_other_object)

lemma foldl_write_other_prop:
  "p \<notin> derived \<Longrightarrow> foldl (write_traffic_h dm am) h stations r p = h r p"
  by (induction stations arbitrary: h) (simp_all add: write_traffic_h_other_prop)

lemma write_traffic_h_written:
  "write_traffic_h dm am h station station p = written dm am h station p"
  by (simp add: write_traffic_h_def set_prop_def get_prop_def Let_def written_def)

lemma written_short_name:
  "get_prop h' r ''short_name'' = get_prop h r ''short_name'' \<Longrightarrow>
   (\<And>p. p \<notin> derived \<Longrightarrow> h' r p = h r p) \<Longrightarrow> written dm am h' r p = written dm am h r p"
  by (simp add: written_def derived_def)

lemma written_twice:
  "get_prop h' r ''short_name'' = get_prop h r ''short_name'' \<Longrightarrow>
   (\<And>p. h' r p = written dm am h r p) \<Longrightarrow> written dm am h' r p = written dm am h r p"
  by (simp add: written_def)

lemma foldl_write_written:
  "r \<in> set stations \<Longrightarrow> foldl (write_traffic_h dm am) h stations r p = written dm am h r p"
proof (induction stations arbitrary: h p rule: rev_induct)
  case Nil
  then show ?case by simp
next
  case (snoc s stations)
  let ?h = "foldl (write_traffic_h dm am) h stations"
  have sn: "get_prop ?h q ''short_name'' = get_prop h q ''short_name''" for q
    using foldl_write_other_prop[of "''short_name''" dm am h stations q]
    by (simp add: get_prop_def derived_def)
  show ?case
  proof (cases "r = s")
    case True
    note rs = this
    show ?thesis
    proof (cases "s \<in> set stations")
      case True
      have "written dm am ?h s p = written dm am h s p"
        using snoc.IH[of h] True rs by (intro written_twice sn) simp
      then show ?thesis using rs by (simp add: write_traffic_h_written)
    next
      case False
      have "written dm am ?h s p = written dm am h s p"
        by (intro written_short_name sn) (simp add: foldl_write_other_object[OF False])
      then show ?thesis using rs by (simp add: write_traffic_h_written)
    qed
  next
    case False
    then have "r \<in> set stations" using snoc.prems by simp
    with False snoc.IH[of h] show ?thesis
      by (simp add: write_traffic_h_other_object)
  qed
qed

lemma computeStationTraffic_h_fst:
  "fst (computeStationTraffic_h departuresRefs arrivalsRefs h stations timeFilter) =
     foldl (write_traffic_h
              (d3_rollup (filterByMinute departuresRefs timeFilter) js_length (\<lambda>d. get_prop h d ''start_station_id''))
              (d3_rollup (filterByMinute arrivalsRefs timeFilter) js_length (\<lambda>d. get_prop h d ''end_station_id'')))
       h stations"
  by (simp add: computeStationTraffic_h_def Let_def)

lemma computeStationTraffic_h_snd:
  "snd (computeStationTraffic_h departuresRefs arrivalsRefs h stations timeFilter) = stations"
  by (simp add: computeStationTraffic_h_def Let_def)

lemma js_slice_map: "js_slice (map f xs) a b = map f (js_slice xs a b)"
  by (simp add: js_slice_def Let_def take_map drop_map split: option.splits)

lemma filterByMinute_map:
  "filterByMinute (map (map f) tripsByMinute) minute = map f (filterByMinute tripsByMinute minute)"
  by (simp add: filterByMinute_def Let_def js_slice_map map_concat)

lemma set_js_slice: "set (js_slice xs a b) \<subseteq> set xs"
  unfolding js_slice_def Let_def
  by (meson set_take_subset set_drop_subset subset_trans)

lemma set_filterByMinute: "set (filterByMinute tripsByMinute minute) \<subseteq> set (concat tripsByMinute)"
proof -
  have "set (concat (js_slice tripsByMinute a b)) \<subseteq> set (concat tripsByMinute)" for a b
    using set_js_slice[of tripsByMinute a b] by auto
  then show ?thesis by (auto simp: filterByMinute_def Let_def)
qed

lemma str_of_eq:
  "\<exists>s. v = Str s \<Longrightarrow> \<exists>s. w = Str s \<Longrightarrow> str_of v = str_of w \<longleftrightarrow> v = w"
  by (auto simp: str_of_def)

lemma count_str_keys:
  assumes "\<forall>d\<in>set ds. \<exists>s. key d = Str s" and "\<exists>s. k = Str s"
  shows "length (filter (\<lambda>d. key d = k) ds) = length (filter (\<lambda>d. str_of (key d) = str_of k) ds)"
  using assms(1)
proof (induction ds)
  case Nil
  then show ?case by simp
next
  case (Cons d ds)
  have "str_of (key d) = str_of k \<longleftrightarrow> key d = k"
    using Cons.prems assms(2) by (intro str_of_eq) simp_all
  then show ?case using Cons by simp
qed

lemma computeStationTraffic_h_refines:
  assumes st: "\<forall>r\<in>set stations. \<exists>s. get_prop h r ''short_name'' = Str s"
    and dep: "\<forall>d\<in>set (concat departuresRefs). \<exists>s. get_prop h d ''start_station_id'' = Str s"
    and arr: "\<forall>d\<in>set (concat arrivalsRefs). \<exists>s. get_prop h d ''end_station_id'' = Str s"
  shows "map (station_of (fst (computeStationTraffic_h departuresRefs arrivalsRefs h stations timeFilter))) stations =
         computeStationTraffic
           \<lparr>departuresByMinute = map (map (trip_of h)) departuresRefs,
            arrivalsByMinute = map (map (trip_of h)) arrivalsRefs\<rparr>
           (map (station_of h) stations) timeFilter"
proof -
  define depTrips where "depTrips = filterByMinute departuresRefs timeFilter"
  define arrTrips where "arrTrips = filterByMinute arrivalsRefs timeFilter"
  define dm where "dm = d3_rollup depTrips js_length (\<lambda>d. get_prop h d ''start_station_id'')"
  define am where "am = d3_rollup arrTrips js_length (\<lambda>d. get_prop h d ''end_station_id'')"
  define h' where "h' = foldl (write_traffic_h dm am) h stations"
  have fst: "fst (computeStationTraffic_h departuresRefs arrivalsRefs h stations timeFilter) = h'"
    by (simp add: computeStationTraffic_h_fst h'_def dm_def am_def depTrips_def arrTrips_def)
  have dep': "\<forall>d\<in>set depTrips. \<exists>s. get_prop h d ''start_station_id'' = Str s"
    using dep set_filterByMinute[of departuresRefs timeFilter] unfolding depTrips_def by blast
  have arr': "\<forall>d\<in>set arrTrips. \<exists>s. get_prop h d ''end_station_id'' = Str s"
    using arr set_filterByMinute[of arrivalsRefs timeFilter] unfolding arrTrips_def by blast
  have one: "station_of h' r =
      write_traffic
        (d3_rollup (map (trip_of h) depTrips) js_length start_station_id)
        (d3_rollup (map (trip_of h) arrTrips) js_length end_station_id)
        (station_of h r)" if r: "r \<in> set stations" for r
  proof -
    from st r have k: "\<exists>s. get_prop h r ''short_name'' = Str s" by blast
    have w: "h' r p = written dm am h r p" for p
      unfolding h'_def by (rule foldl_write_written[OF r])
    have sn: "get_prop h' r ''short_name'' = get_prop h r ''short_name''"
      by (simp add: get_prop_def w written_def)
    have cd: "nullish (dm (get_prop h r ''short_name'')) (Num 0) =
              Num (int (length (filter (\<lambda>d. start_station_id d = str_of (get_prop h r ''short_name''))
                                  (map (trip_of h) depTrips))))"
      unfolding dm_def rollup_count using count_str_keys[OF dep' k]
      by (simp add: filter_map comp_def trip_of_def)
    have ca: "nullish (am (get_prop h r ''short_name'')) (Num 0) =
              Num (int (length (filter (\<lambda>d. end_station_id d = str_of (get_prop h r ''short_name''))
                                  (map (trip_of h) arrTrips))))"
      unfolding am_def rollup_count using count_str_keys[OF arr' k]
      by (simp add: filter_map comp_def trip_of_def)
    show ?thesis
      unfolding write_traffic_counts
      by (simp add: station_of_def sn w written_def num_of_def cd ca)
  qed
  have "map (station_of h') stations =
        map (write_traffic
               (d3_rollup (map (trip_of h) depTrips) js_length start_station_id)
               (d3_rollup (map (trip_of h) arrTrips) js_length end_station_id))
          (map (station_of h) stations)"
    using one by simp
  then show ?thesis
    unfolding fst by (simp add: computeStationTraffic_def Let_def filterByMinute_map depTrips_def arrTrips_def)
qed

lemma computeStationTraffic_h_twice:
  "fst (computeStationTraffic_h departuresRefs arrivalsRefs
          (fst (computeStationTraffic_h departuresRefs arrivalsRefs h stations timeFilter)) stations timeFilter) =
   fst (computeStationTraffic_h departuresRefs arrivalsRefs h stations timeFilter)"
proof -
  define dm where "dm = d3_rollup (filterByMinute departuresRefs timeFilter) js_length (\<lambda>d. get_prop h d ''start_station_id'')"
  define am where "am = d3_rollup (filterByMinute arrivalsRefs timeFilter) js_length (\<lambda>d. get_prop h d ''end_station_id'')"
  define h' where "h' = foldl (write_traffic_h dm am) h stations"
  have fst: "fst (computeStationTraffic_h departuresRefs arrivalsRefs h stations timeFilter) = h'"
    by (simp add: computeStationTraffic_h_fst h'_def dm_def am_def)
  have keep: "get_prop h' r p = get_prop h r p" if "p \<notin> derived" for r p
    unfolding h'_def get_prop_def using foldl_write_other_prop[OF that] by simp
  have dm': "d3_rollup (filterByMinute departuresRefs timeFilter) js_length (\<lambda>d. get_prop h' d ''start_station_id'') = dm"
    unfolding dm_def by (simp add: keep derived_def)
  have am': "d3_rollup (filterByMinute arrivalsRefs timeFilter) js_length (\<lambda>d. get_prop h' d ''end_station_id'') = am"
    unfolding am_def by (simp add: keep derived_def)
  have "foldl (write_traffic_h dm am) h' stations r p = h' r p" for r p
  proof (cases "r \<in> set stations")
    case True
    have w: "h' r q = written dm am h r q" for q
      unfolding h'_def by (rule foldl_write_written[OF True])
    have "foldl (write_traffic_h dm am) h' stations r p = written dm am h' r p"
      by (rule foldl_write_written[OF True])
    also have "\<dots> = written dm am h r p"
      by (rule written_twice) (simp_all add: keep derived_def w)
    finally show ?thesis by (simp add: w)
  next
    case False
    then show ?thesis by (simp add: foldl_write_other_object)
  qed
  then have "foldl (write_traffic_h dm am) h' stations = h'" by (intro ext)
  then show ?thesis
    unfolding fst by (simp add: computeStationTraffic_h_fst dm' am')
qed

text \<open>
  C8. Calling \<open>computeStationTraffic\<close> again on the roster it returned, with the same
  query minute and the same index, gives the same roster, so the same departures,
  arrivals and totalTraffic on every station; the same holds when the roster carries
  the counts of another query minute, and on the object store, where the second call
  leaves the store as the first call left it. \<open>filterByMinute\<close> and \<open>computeStationTraffic\<close>
  are functions of their arguments: the same inputs give the same output.
\<close>

theorem computeStationTraffic_idempotent:
  "computeStationTraffic st (computeStationTraffic st stations timeFilter) timeFilter =
     computeStationTraffic st stations timeFilter \<and>
   computeStationTraffic st (computeStationTraffic st stations otherFilter) timeFilter =
     computeStationTraffic st stations timeFilter \<and>
   fst (computeStationTraffic_h departuresRefs arrivalsRefs
          (fst (computeStationTraffic_h departuresRefs arrivalsRefs h roster timeFilter)) roster timeFilter) =
     fst (computeStationTraffic_h departuresRefs arrivalsRefs h roster timeFilter)"
  using computeStationTraffic_h_twice[of departuresRefs arrivalsRefs h roster timeFilter]
  by (simp add: computeStationTraffic_def Let_def write_traffic_twice comp_def)

text \<open>
  C9. \<open>computeStationTraffic\<close> returns the references of the roster as they were. In
  the store it leaves every property other than departures, arrivals and totalTraffic
  as it was, on every object, and it leaves every object outside the roster as it was;
  so when no trip of the two indexes is in the roster, every trip is as it was. On the
  records, \<open>short_name\<close> and the extension of every station are unchanged.
\<close>

theorem computeStationTraffic_h_frame:
  "(case computeStationTraffic_h departuresRefs arrivalsRefs h stations timeFilter of
      (h', out) \<Rightarrow>
        out = stations \<and>
        (\<forall>r p. p \<notin> derived \<longrightarrow> h' r p = h r p) \<and>
        (\<forall>r. r \<notin> set stations \<longrightarrow> h' r = h r) \<and>
        (set stations \<inter> (set (concat departuresRefs) \<union> set (concat arrivalsRefs)) = {} \<longrightarrow>
           (\<forall>d\<in>set (concat departuresRefs) \<union> set (concat arrivalsRefs). h' d = h d))) \<and>
   map short_name (computeStationTraffic st roster timeFilter) = map short_name roster \<and>
   map station.more (computeStationTraffic st roster timeFilter) = map station.more roster"
proof -
  obtain h' out where r: "computeStationTraffic_h departuresRefs arrivalsRefs h stations timeFilter = (h', out)"
    by (cases "computeStationTraffic_h departuresRefs arrivalsRefs h stations timeFilter")
  from r have out: "out = stations"
    using computeStationTraffic_h_snd[of departuresRefs arrivalsRefs h stations timeFilter] by simp
  from r have h': "h' = foldl (write_traffic_h
              (d3_rollup (filterByMinute departuresRefs timeFilter) js_length (\<lambda>d. get_prop h d ''start_station_id''))
              (d3_rollup (filterByMinute arrivalsRefs timeFilter) js_length (\<lambda>d. get_prop h d ''end_station_id'')))
       h stations"
    using computeStationTraffic_h_fst[of departuresRefs arrivalsRefs h stations timeFilter] by simp
  have p: "\<forall>r p. p \<notin> derived \<longrightarrow> h' r p = h r p"
    unfolding h' by (simp add: foldl_write_other_prop)
  have o: "\<forall>r. r \<notin> set stations \<longrightarrow> h' r = h r"
    unfolding h' by (simp add: foldl_write_other_object)
  have t: "set stations \<inter> (set (concat departuresRefs) \<union> set (concat arrivalsRefs)) = {} \<longrightarrow>
           (\<forall>d\<in>set (concat departuresRefs) \<union> set (concat arrivalsRefs). h' d = h d)"
    using o by blast
  have v: "map short_name (computeStationTraffic st roster timeFilter) = map short_name roster \<and>
           map station.more (computeStationTraffic st roster timeFilter) = map station.more roster"
    by (simp add: computeStationTraffic_def Let_def write_traffic_frame comp_def)
  show ?thesis unfolding r using out p o t v by simp
qed

text \<open>The statement at \<open>sample_heap\<close>, with the station in the roster and the trip in both indexes.\<close>

theorem computeStationTraffic_h_frame_witness:
  "snd (computeStationTraffic_h [[1]] [[1]] sample_heap [0] (- 1)) = [0] \<and>
   fst (computeStationTraffic_h [[1]] [[1]] sample_heap [0] (- 1)) 1 = sample_heap 1 \<and>
   fst (computeStationTraffic_h [[1]] [[1]] sample_heap [0] (- 1)) 0 ''short_name'' = Some (Str ''A'') \<and>
   fst (computeStationTraffic_h [[1]] [[1]] sample_heap [0] (- 1)) 0 ''name'' = Some (Str ''Main St'') \<and>
   fst (computeStationTraffic_h [[1]] [[1]] sample_heap [0] (- 1)) 0 ''departures'' = Some (Number (Num 1)) \<and>
   map short_name (computeStationTraffic (load_trips sample_newDate [good_row]) [station_A] (- 1)) =
     map short_name [station_A]"
proof -
  obtain h' out where r: "computeStationTraffic_h [[1]] [[1]] sample_heap [0] (- 1) = (h', out)"
    by (cases "computeStationTraffic_h [[1]] [[1]] sample_heap [0] (- 1)")
  note f = computeStationTraffic_h_frame[where departuresRefs = "[[1]]" and arrivalsRefs = "[[1]]"
      and h = sample_heap and stations = "[0]" and timeFilter = "- 1"
      and st = "load_trips sample_newDate [good_row]" and roster = "[station_A]", unfolded r, simplified]
  have d: "''short_name'' \<notin> derived" "''name'' \<notin> derived" by (simp_all add: derived_def)
  from f have 1: "out = [0]" by blast
  from f have 2: "h' 1 = sample_heap 1" by simp
  from f have 6: "map short_name (computeStationTraffic (load_trips sample_newDate [good_row]) [station_A] (- 1)) =
                  map short_name [station_A]" by simp
  from f d have 3: "h' 0 ''short_name'' = Some (Str ''A'')" by (simp add: sample_heap_def)
  from f d have 4: "h' 0 ''name'' = Some (Str ''Main St'')" by (simp add: sample_heap_def)
  have "h' 0 ''departures'' = written
          (d3_rollup (filterByMinute [[1]] (- 1)) js_length (\<lambda>d. get_prop sample_heap d ''start_station_id''))
          (d3_rollup (filterByMinute [[1]] (- 1)) js_length (\<lambda>d. get_prop sample_heap d ''end_station_id''))
          sample_heap 0 ''departures''"
    using r computeStationTraffic_h_fst[of "[[1]]" "[[1]]" sample_heap "[0]" "- 1"]
    by (simp add: write_traffic_h_written)
  then have 5: "h' 0 ''departures'' = Some (Number (Num 1))"
    by (simp add: written_def rollup_count filterByMinute_def get_prop_def sample_heap_def)
  show ?thesis unfolding r using 1 2 3 4 5 6 by simp
qed

end
